theory Spec2Isabelle
  imports Main "HOL-Library.Sublist" "HOL-Library.AList"
begin

section \<open>The manifest\<close>

text \<open>
  The builder of \<^verbatim>\<open>insights_messaging/builder.py\<close> reads a manifest: a nested mapping
  with the sections \<^verbatim>\<open>plugins\<close>, \<^verbatim>\<open>configs\<close> and \<^verbatim>\<open>service\<close>. A key that may be
  missing is an \<open>option\<close> field, so \<^verbatim>\<open>"k" not in d\<close> is \<open>k d = None\<close> and
  \<^verbatim>\<open>d.get("k", x)\<close> is \<open>dict_get (k d) x\<close>. Values the builder only hands on
  (constructor arguments, override specs) are YAML values.
\<close>

datatype val =
    VNull
  | VBool bool
  | VInt int
  | VStr string
  | VSeq "val list"
  | VMap "(string \<times> val) list"

definition dict_get :: "'a option \<Rightarrow> 'a \<Rightarrow> 'a" where
  "dict_get v d = (case v of None \<Rightarrow> d | Some x \<Rightarrow> x)"

record component_spec =
  name :: string
  args :: "val list option"
  kwargs :: "(string \<times> val) list option"

record plugins_section =
  default_component_enabled :: "bool option"
  packages :: "string list option"

record service_section =
  consumer :: "component_spec option"
  publisher :: "component_spec option"
  downloader :: "component_spec option"
  format :: "string option"
  target_components :: "string list option"
  watchers :: "component_spec list option"

record manifest =
  m_plugins :: "plugins_section option"
  m_configs :: "val option"
  m_service :: "service_section option"

text \<open>The empty mapping \<^verbatim>\<open>{}\<close>, read as a plugins or as a service section.\<close>

definition no_plugins :: plugins_section where
  "no_plugins = \<lparr>default_component_enabled = None, packages = None\<rparr>"

definition no_service :: service_section where
  "no_service = \<lparr>consumer = None, publisher = None, downloader = None,
     format = None, target_components = None, watchers = None\<rparr>"

definition just :: "string \<Rightarrow> component_spec" where
  "just n = \<lparr>name = n, args = None, kwargs = None\<rparr>"

text \<open>\<^verbatim>\<open>AppBuilder.default_manifest\<close>, as the YAML text parses.\<close>

definition default_manifest :: manifest where
  "default_manifest = \<lparr>
     m_plugins = Some \<lparr>
       default_component_enabled = Some True,
       packages = Some [''insights.specs.default'', ''insights.specs.insights_archive'',
                        ''examples.rules.bash_version'']\<rparr>,
     m_configs = Some (VSeq [VMap [(''name'', VStr ''examples.rules.bash_version.report''),
                                   (''enabled'', VBool True)]]),
     m_service = Some \<lparr>
       consumer = Some (just ''insights_messaging.consumers.cli.Interactive''),
       publisher = Some (just ''insights_messaging.publishers.cli.StdOut''),
       downloader = Some (just ''insights_messaging.downloaders.localfs.LocalFS''),
       format = Some ''insights_messaging.formats.rhel_stats.Stats'',
       target_components = Some [''examples.rules.bash_version.report''],
       watchers = Some [just ''insights_messaging.watchers.stats.LocalStatWatcher'']\<rparr>\<rparr>"

section \<open>Components, objects and the calls the builder makes\<close>

text \<open>
  A component is a class or function object: one of the classes the module imports, or
  an object of the registry (identified by an opaque tag). What the builder passes
  around at run time is an \<open>obj\<close>: \<^verbatim>\<open>None\<close>, a manifest value, a class used as a
  value, a dependency graph, or the result \<open>OInst c as kws\<close> of the call
  \<^verbatim>\<open>c(*as, **kws)\<close>. Constructors belong to the collaborators, so the result of a
  call is kept symbolic and the call itself is logged.
\<close>

datatype component =
    HumanReadableFormat
  | LocalFS
  | Engine
  | Interactive
  | StdOut
  | Component string

type_synonym graph = "(component \<times> component set) list"

datatype obj =
    ONone
  | OVal val
  | OClass component
  | OGraph graph
  | OInst component "obj list" "(string \<times> obj) list"

datatype event =
    LoadComponents string bool
  | ApplyDefaultEnabled plugins_section
  | ApplyConfigs plugins_section
  | GetComponent string
  | Call component "obj list" "(string \<times> obj) list"
  | Watch obj obj

datatype error = Exception string

fun message :: "error \<Rightarrow> string" where
  "message (Exception s) = s"

text \<open>
  The collaborators the module imports: the registry \<^verbatim>\<open>dr\<close> over its state \<open>'r\<close>,
  \<^verbatim>\<open>apply_default_enabled\<close> and \<^verbatim>\<open>apply_configs\<close> of \<^verbatim>\<open>insights\<close>, and the two
  \<^verbatim>\<open>isinstance\<close> tests against the watcher base classes. They are parameters of
  the model. \<open>load_components\<close> may raise, and the builder raises when a name does not
  resolve. The constructors, the two \<^verbatim>\<open>apply_\<close> functions and \<^verbatim>\<open>watch\<close> are taken to
  return: an exception of theirs would pass through \<^verbatim>\<open>build_app\<close> as it is. Looking a
  name up reads the registry and leaves it as it is.
\<close>

record 'r dr =
  load_components :: "string \<Rightarrow> bool \<Rightarrow> 'r \<Rightarrow> error + 'r"
  apply_default_enabled :: "plugins_section \<Rightarrow> 'r \<Rightarrow> 'r"
  apply_configs :: "plugins_section \<Rightarrow> 'r \<Rightarrow> 'r"
  get_component :: "'r \<Rightarrow> string \<Rightarrow> component option"
  DELEGATES :: "'r \<Rightarrow> component list"
  get_name :: "component \<Rightarrow> string"
  get_dependency_graph :: "'r \<Rightarrow> component \<Rightarrow> graph"
  is_EngineWatcher :: "obj \<Rightarrow> bool"
  is_ConsumerWatcher :: "obj \<Rightarrow> bool"

text \<open>
  The world is the registry's state and the log of calls made so far. An action runs in
  a world and gives an error or a value, and the world it leaves: what was done before
  a raise stays done.
\<close>

record 'r world =
  registry :: 'r
  calls :: "event list"

type_synonym ('r, 'a) action = "'r world \<Rightarrow> (error + 'a) \<times> 'r world"

definition returnE :: "'a \<Rightarrow> ('r, 'a) action" where
  "returnE x = (\<lambda>w. (Inr x, w))"

definition raiseE :: "error \<Rightarrow> ('r, 'a) action" where
  "raiseE e = (\<lambda>w. (Inl e, w))"

definition bindE :: "('r, 'a) action \<Rightarrow> ('a \<Rightarrow> ('r, 'b) action) \<Rightarrow> ('r, 'b) action" where
  "bindE m f = (\<lambda>w. case m w of (Inl e, w') \<Rightarrow> (Inl e, w') | (Inr x, w') \<Rightarrow> f x w')"

definition emit :: "event \<Rightarrow> ('r, unit) action" where
  "emit ev = (\<lambda>w. (Inr (), w\<lparr>calls := calls w @ [ev]\<rparr>))"

text \<open>\<^verbatim>\<open>dr.load_components(p, continue_on_error=False)\<close>\<close>

definition dr_load_components :: "'r dr \<Rightarrow> string \<Rightarrow> bool \<Rightarrow> ('r, unit) action" where
  "dr_load_components d p coe = (\<lambda>w.
     case load_components d p coe (registry w) of
       Inl e \<Rightarrow> (Inl e, w\<lparr>calls := calls w @ [LoadComponents p coe]\<rparr>)
     | Inr r \<Rightarrow> (Inr (), w\<lparr>registry := r, calls := calls w @ [LoadComponents p coe]\<rparr>))"

definition do_apply_default_enabled :: "'r dr \<Rightarrow> plugins_section \<Rightarrow> ('r, unit) action" where
  "do_apply_default_enabled d p = (\<lambda>w.
     (Inr (), w\<lparr>registry := apply_default_enabled d p (registry w),
                calls := calls w @ [ApplyDefaultEnabled p]\<rparr>))"

definition do_apply_configs :: "'r dr \<Rightarrow> plugins_section \<Rightarrow> ('r, unit) action" where
  "do_apply_configs d p = (\<lambda>w.
     (Inr (), w\<lparr>registry := apply_configs d p (registry w),
                calls := calls w @ [ApplyConfigs p]\<rparr>))"

text \<open>\<^verbatim>\<open>dr.get_component(n)\<close>\<close>

definition dr_get_component :: "'r dr \<Rightarrow> string \<Rightarrow> ('r, component option) action" where
  "dr_get_component d n = (\<lambda>w.
     (Inr (get_component d (registry w) n), w\<lparr>calls := calls w @ [GetComponent n]\<rparr>))"

text \<open>\<^verbatim>\<open>c(*as, **kws)\<close>\<close>

definition call :: "component \<Rightarrow> obj list \<Rightarrow> (string \<times> obj) list \<Rightarrow> ('r, obj) action" where
  "call c as kws = (\<lambda>w. (Inr (OInst c as kws), w\<lparr>calls := calls w @ [Call c as kws]\<rparr>))"

text \<open>\<^verbatim>\<open>w.watch(x)\<close>\<close>

definition watch :: "obj \<Rightarrow> obj \<Rightarrow> ('r, unit) action" where
  "watch w x = emit (Watch w x)"

section \<open>AppBuilder\<close>

text \<open>
  The attributes of the builder, and its methods under their names without the leading
  underscore. A spec always has its \<^verbatim>\<open>name\<close>.
\<close>

record AppBuilder =
  manifest :: manifest
  plugins :: plugins_section
  service :: service_section
  configs :: val

text \<open>
  \<^verbatim>\<open>__init__\<close>. A manifest given as text is parsed by the YAML library before the
  attributes are read; the model starts from the parsed mapping.
\<close>

definition init :: "manifest option \<Rightarrow> AppBuilder" where
  "init m = (let m' = (case m of None \<Rightarrow> default_manifest | Some x \<Rightarrow> x) in
     \<lparr>manifest = m',
      plugins = dict_get (m_plugins m') no_plugins,
      service = dict_get (m_service m') no_service,
      configs = dict_get (m_configs m') (VMap [])\<rparr>)"

fun load_packages :: "'r dr \<Rightarrow> string list \<Rightarrow> ('r, unit) action" where
  "load_packages d [] = returnE ()"
| "load_packages d (p # pkgs) =
     bindE (dr_load_components d p False) (\<lambda>_. load_packages d pkgs)"

definition load_plugins :: "'r dr \<Rightarrow> AppBuilder \<Rightarrow> ('r, unit) action" where
  "load_plugins d self = load_packages d (dict_get (packages (plugins self)) [])"

definition not_found :: "string \<Rightarrow> error" where
  "not_found n = Exception (''Couldn't find '' @ n @ ''.'')"

definition get_format :: "'r dr \<Rightarrow> AppBuilder \<Rightarrow> ('r, obj) action" where
  "get_format d self =
     (case format (service self) of
        None \<Rightarrow> returnE (OClass HumanReadableFormat)
      | Some n \<Rightarrow>
          bindE (dr_get_component d n) (\<lambda>fmt.
            case fmt of
              None \<Rightarrow> raiseE (not_found n)
            | Some c \<Rightarrow> returnE (OClass c)))"

definition get_consumer :: "'r dr \<Rightarrow> AppBuilder \<Rightarrow> obj \<Rightarrow> obj \<Rightarrow> obj \<Rightarrow> ('r, obj) action" where
  "get_consumer d self pub dl eng =
     (case consumer (service self) of
        None \<Rightarrow> call Interactive [pub, dl, eng] []
      | Some spec \<Rightarrow>
          bindE (dr_get_component d (name spec)) (\<lambda>Consumer.
            case Consumer of
              None \<Rightarrow> raiseE (not_found (name spec))
            | Some c \<Rightarrow>
                call c ([pub, dl, eng] @ map OVal (dict_get (args spec) []))
                  (map (\<lambda>(k, v). (k, OVal v)) (dict_get (kwargs spec) []))))"

definition get_publisher :: "'r dr \<Rightarrow> AppBuilder \<Rightarrow> ('r, obj) action" where
  "get_publisher d self =
     (case publisher (service self) of
        None \<Rightarrow> call StdOut [] []
      | Some spec \<Rightarrow>
          bindE (dr_get_component d (name spec)) (\<lambda>Publisher.
            case Publisher of
              None \<Rightarrow> raiseE (not_found (name spec))
            | Some c \<Rightarrow>
                call c (map OVal (dict_get (args spec) []))
                  (map (\<lambda>(k, v). (k, OVal v)) (dict_get (kwargs spec) []))))"

definition load :: "'r dr \<Rightarrow> component_spec \<Rightarrow> ('r, obj) action" where
  "load d spec =
     bindE (dr_get_component d (name spec)) (\<lambda>comp.
       case comp of
         None \<Rightarrow> raiseE (not_found (name spec))
       | Some c \<Rightarrow>
           call c (map OVal (dict_get (args spec) []))
             (map (\<lambda>(k, v). (k, OVal v)) (dict_get (kwargs spec) [])))"

definition get_downloader :: "'r dr \<Rightarrow> AppBuilder \<Rightarrow> ('r, obj) action" where
  "get_downloader d self =
     (case downloader (service self) of
        None \<Rightarrow> returnE (OClass LocalFS)
      | Some spec \<Rightarrow> load d spec)"

text \<open>The list comprehension \<^verbatim>\<open>[self._load(w) for w in ...]\<close>.\<close>

fun load_each :: "'r dr \<Rightarrow> component_spec list \<Rightarrow> ('r, obj list) action" where
  "load_each d [] = returnE []"
| "load_each d (w # ws) =
     bindE (load d w) (\<lambda>x. bindE (load_each d ws) (\<lambda>xs. returnE (x # xs)))"

definition get_watchers :: "'r dr \<Rightarrow> AppBuilder \<Rightarrow> ('r, obj list) action" where
  "get_watchers d self =
     (case watchers (service self) of
        None \<Rightarrow> returnE []
      | Some ws \<Rightarrow> load_each d ws)"

text \<open>
  \<^verbatim>\<open>s.startswith(tc)\<close> for a tuple \<open>tc\<close> of strings, and \<^verbatim>\<open>graph.update(g)\<close> on
  dictionaries kept in insertion order.
\<close>

definition startswith :: "string \<Rightarrow> string list \<Rightarrow> bool" where
  "startswith s tc = list_ex (\<lambda>p. prefix p s) tc"

definition dict_update :: "graph \<Rightarrow> graph \<Rightarrow> graph" where
  "dict_update graph g = fold (\<lambda>(k, v). AList.update k v) g graph"

definition get_target_components :: "'r dr \<Rightarrow> AppBuilder \<Rightarrow> 'r \<Rightarrow> graph option" where
  "get_target_components d self r =
     (let tc = dict_get (target_components (service self)) [] in
      if tc = [] then None
      else
        let graph = fold (\<lambda>c graph.
                      if startswith (get_name d c) tc
                      then dict_update graph (get_dependency_graph d r c)
                      else graph) (DELEGATES d r) []
        in if graph = [] then None else Some graph)"

text \<open>The loop over the watchers at the end of \<^verbatim>\<open>build_app\<close>.\<close>

fun watch_each :: "'r dr \<Rightarrow> obj list \<Rightarrow> obj \<Rightarrow> obj \<Rightarrow> ('r, unit) action" where
  "watch_each d [] eng con = returnE ()"
| "watch_each d (w # ws) eng con =
     bindE (if is_EngineWatcher d w then watch w eng else returnE ()) (\<lambda>_.
     bindE (if is_ConsumerWatcher d w then watch w con else returnE ()) (\<lambda>_.
     watch_each d ws eng con))"

definition graph_obj :: "graph option \<Rightarrow> obj" where
  "graph_obj g = (case g of None \<Rightarrow> ONone | Some x \<Rightarrow> OGraph x)"

definition build_app :: "'r dr \<Rightarrow> AppBuilder \<Rightarrow> ('r, obj) action" where
  "build_app d self =
     bindE (load_plugins d self) (\<lambda>_.
     bindE (do_apply_default_enabled d (plugins self)) (\<lambda>_.
     bindE (do_apply_configs d (plugins self)) (\<lambda>_.
     bindE (\<lambda>w. (Inr (get_target_components d self (registry w)), w)) (\<lambda>tc.
     bindE (get_publisher d self) (\<lambda>pub.
     bindE (get_downloader d self) (\<lambda>dl.
     bindE (get_format d self) (\<lambda>fmt.
     bindE (call Engine [graph_obj tc, fmt] []) (\<lambda>eng.
     bindE (get_consumer d self pub dl eng) (\<lambda>con.
     bindE (get_watchers d self) (\<lambda>ws.
     bindE (watch_each d ws eng con) (\<lambda>_.
     returnE con)))))))))))"

section \<open>The phases of \<open>build_app\<close>\<close>

text \<open>
  Names for parts of \<^verbatim>\<open>build_app\<close> that the statements below speak about. After the
  packages have loaded in the world \<open>w1\<close>, \<open>configured d self w1\<close> is the world the
  two \<^verbatim>\<open>apply_\<close> calls leave; \<open>wire\<close> is the construction of publisher, downloader,
  engine and consumer from the target closure \<open>tc\<close>, and \<open>attach_watchers\<close> is what
  follows it. Lemma \<open>build_app_phases\<close> shows that \<open>build_app\<close> is their sequence.
\<close>

definition configured :: "'r dr \<Rightarrow> AppBuilder \<Rightarrow> 'r world \<Rightarrow> 'r world" where
  "configured d self w1 =
     w1\<lparr>registry := apply_configs d (plugins self)
                        (apply_default_enabled d (plugins self) (registry w1)),
        calls := calls w1 @ [ApplyDefaultEnabled (plugins self), ApplyConfigs (plugins self)]\<rparr>"

definition wire :: "'r dr \<Rightarrow> AppBuilder \<Rightarrow> graph option \<Rightarrow> ('r, obj \<times> obj) action" where
  "wire d self tc =
     bindE (get_publisher d self) (\<lambda>pub.
     bindE (get_downloader d self) (\<lambda>dl.
     bindE (get_format d self) (\<lambda>fmt.
     bindE (call Engine [graph_obj tc, fmt] []) (\<lambda>eng.
     bindE (get_consumer d self pub dl eng) (\<lambda>con.
     returnE (eng, con))))))"

definition attach_watchers :: "'r dr \<Rightarrow> AppBuilder \<Rightarrow> obj \<Rightarrow> obj \<Rightarrow> ('r, obj) action" where
  "attach_watchers d self eng con =
     bindE (get_watchers d self) (\<lambda>ws.
     bindE (watch_each d ws eng con) (\<lambda>_.
     returnE con))"

text \<open>
  The registry in which \<open>build_app\<close>, run in \<open>w\<close>, resolves the targets and every name:
  the one left by loading the packages and the two \<^verbatim>\<open>apply_\<close> calls.
\<close>

definition resolving_registry :: "'r dr \<Rightarrow> AppBuilder \<Rightarrow> 'r world \<Rightarrow> 'r" where
  "resolving_registry d self w = registry (configured d self (snd (load_plugins d self w)))"

text \<open>The builder of the same manifest with \<^verbatim>\<open>service.target_components\<close> left out.\<close>

definition without_targets :: "AppBuilder \<Rightarrow> AppBuilder" where
  "without_targets self = self\<lparr>service := (service self)\<lparr>target_components := None\<rparr>\<rparr>"

text \<open>Merging dependency graphs in turn into an empty dictionary.\<close>

definition merge_graphs :: "graph list \<Rightarrow> graph" where
  "merge_graphs gs = fold (\<lambda>g graph. dict_update graph g) gs []"

section \<open>Notions for the statements\<close>

text \<open>
  The positional and the keyword arguments a spec supplies, as objects.
\<close>

abbreviation positional_args :: "component_spec \<Rightarrow> obj list" where
  "positional_args spec \<equiv> map OVal (dict_get (args spec) [])"

abbreviation keyword_args :: "component_spec \<Rightarrow> (string \<times> obj) list" where
  "keyword_args spec \<equiv> map (\<lambda>(k, v). (k, OVal v)) (dict_get (kwargs spec) [])"

text \<open>
  The same for a slot that may be absent.
\<close>

definition given_args :: "component_spec option \<Rightarrow> obj list" where
  "given_args s = (case s of None \<Rightarrow> [] | Some spec \<Rightarrow> positional_args spec)"

definition given_kwargs :: "component_spec option \<Rightarrow> (string \<times> obj) list" where
  "given_kwargs s = (case s of None \<Rightarrow> [] | Some spec \<Rightarrow> keyword_args spec)"

text \<open>
  The object \<open>x\<close> is the result of calling the component that the name of \<open>spec\<close>
  resolves to in \<open>r\<close> with the arguments of \<open>spec\<close>; for a slot, \<open>x\<close> is that or, when the
  slot is absent, the default \<open>dflt\<close>.
\<close>

definition built_from :: "'r dr \<Rightarrow> 'r \<Rightarrow> component_spec \<Rightarrow> obj \<Rightarrow> bool" where
  "built_from d r spec x =
     (case get_component d r (name spec) of
        None \<Rightarrow> False
      | Some c \<Rightarrow> x = OInst c (positional_args spec) (keyword_args spec))"

definition slot_built :: "'r dr \<Rightarrow> 'r \<Rightarrow> component_spec option \<Rightarrow> obj \<Rightarrow> obj \<Rightarrow> bool" where
  "slot_built d r slot dflt x =
     (case slot of None \<Rightarrow> x = dflt | Some spec \<Rightarrow> built_from d r spec x)"

text \<open>
  The object was constructed by a call that the log \<open>L\<close> holds.
\<close>

fun constructed_in :: "obj \<Rightarrow> event list \<Rightarrow> bool" where
  "constructed_in (OInst c as kws) L = (Call c as kws \<in> set L)"
| "constructed_in x L = False"

text \<open>
  The \<^verbatim>\<open>watch\<close> calls of a log, and the ones the loop body makes for one watcher.
\<close>

fun is_Watch :: "event \<Rightarrow> bool" where
  "is_Watch (Watch x y) = True"
| "is_Watch ev = False"

definition watch_events :: "'r dr \<Rightarrow> obj \<Rightarrow> obj \<Rightarrow> obj \<Rightarrow> event list" where
  "watch_events d eng con x =
     (if is_EngineWatcher d x then [Watch x eng] else []) @
     (if is_ConsumerWatcher d x then [Watch x con] else [])"

text \<open>
  The names \<open>build_app\<close> looks up, in the order in which it looks them up: the publisher,
  the downloader, the format, the consumer, then the watchers in the order of the list.
\<close>

definition given :: "'a option \<Rightarrow> 'a list" where
  "given v = (case v of None \<Rightarrow> [] | Some x \<Rightarrow> [x])"

definition slot_names :: "AppBuilder \<Rightarrow> string list" where
  "slot_names self =
     map name (given (publisher (service self))) @
     map name (given (downloader (service self))) @
     given (format (service self)) @
     map name (given (consumer (service self)))"

definition watcher_names :: "AppBuilder \<Rightarrow> string list" where
  "watcher_names self = map name (dict_get (watchers (service self)) [])"

definition lookup_order :: "AppBuilder \<Rightarrow> string list" where
  "lookup_order self = slot_names self @ watcher_names self"

text \<open>
  The action \<open>m\<close> leaves the registry as it is and looks the names \<open>ns\<close> up in turn:
  it raises for the first of them that does not resolve, and returns when all do.
\<close>

definition resolves_names :: "'r dr \<Rightarrow> ('r, 'a) action \<Rightarrow> string list \<Rightarrow> bool" where
  "resolves_names d m ns \<longleftrightarrow>
     (\<forall>w. registry (snd (m w)) = registry w
        \<and> (case find (\<lambda>n. get_component d (registry w) n = None) ns of
             Some n \<Rightarrow> fst (m w) = Inl (not_found n)
           | None \<Rightarrow> (\<exists>x. fst (m w) = Inr x)))"

section \<open>A registry to run the builder against\<close>

text \<open>
  A small registry: its state is the list of registered components, a package registers
  the components listed for it, and a name resolves to a registered component or to an
  importable class. It serves to run the builder on concrete manifests.
\<close>

definition ex_packages :: "(string \<times> component list) list" where
  "ex_packages =
     [(''pkg.a'', [Component ''pkg.a.x'', Component ''pkg.a.y'']),
      (''pkg.ab'', [Component ''pkg.ab.w'']),
      (''pkg.b'', [Component ''pkg.b.z'']),
      (''insights.specs.default'', [Component ''insights.specs.default.DefaultSpecs'']),
      (''insights.specs.insights_archive'', [Component ''insights.specs.insights_archive.InsightsArchiveSpecs'']),
      (''examples.rules.bash_version'', [Component ''examples.rules.bash_version.report''])]"

definition ex_classes :: "(string \<times> component) list" where
  "ex_classes =
     [(''insights_messaging.consumers.cli.Interactive'', Interactive),
      (''insights_messaging.publishers.cli.StdOut'', StdOut),
      (''insights_messaging.downloaders.localfs.LocalFS'', LocalFS),
      (''insights_messaging.formats.rhel_stats.Stats'', Component ''Stats''),
      (''insights_messaging.watchers.stats.LocalStatWatcher'', Component ''LocalStatWatcher''),
      (''app.Pub'', Component ''Pub''),
      (''app.Down'', Component ''Down''),
      (''app.Cons'', Component ''Cons''),
      (''app.EngineOnly'', Component ''EngineOnly''),
      (''app.ConsumerOnly'', Component ''ConsumerOnly''),
      (''app.Both'', Component ''Both''),
      (''app.Plain'', Component ''Plain'')]"

definition ex_graphs :: "(component \<times> graph) list" where
  "ex_graphs =
     [(Component ''pkg.a.x'',
         [(Component ''pkg.a.x'', {Component ''spec.s1''}), (Component ''spec.s1'', {})]),
      (Component ''pkg.a.y'',
         [(Component ''pkg.a.y'', {Component ''spec.s1'', Component ''spec.s2''}),
          (Component ''spec.s1'', {}), (Component ''spec.s2'', {})]),
      (Component ''pkg.ab.w'', [(Component ''pkg.ab.w'', {})]),
      (Component ''pkg.b.z'',
         [(Component ''pkg.b.z'', {Component ''spec.s3''}), (Component ''spec.s3'', {})])]"

fun ex_name :: "component \<Rightarrow> string" where
  "ex_name (Component n) = n"
| "ex_name HumanReadableFormat = ''insights.formats.text.HumanReadableFormat''"
| "ex_name LocalFS = ''insights_messaging.downloaders.localfs.LocalFS''"
| "ex_name Engine = ''insights_messaging.engine.Engine''"
| "ex_name Interactive = ''insights_messaging.consumers.cli.Interactive''"
| "ex_name StdOut = ''insights_messaging.publishers.cli.StdOut''"

fun ex_class_of :: "obj \<Rightarrow> component option" where
  "ex_class_of (OInst c as kws) = Some c"
| "ex_class_of x = None"

definition ex_dr :: "component list dr" where
  "ex_dr = \<lparr>
     load_components = (\<lambda>p coe r.
       case map_of ex_packages p of
         None \<Rightarrow> if coe then Inr r else Inl (Exception (''No module named '' @ p))
       | Some cs \<Rightarrow> Inr (r @ cs)),
     apply_default_enabled = (\<lambda>p r. r),
     apply_configs = (\<lambda>p r. r),
     get_component = (\<lambda>r n. if Component n \<in> set r then Some (Component n) else map_of ex_classes n),
     DELEGATES = (\<lambda>r. r),
     get_name = ex_name,
     get_dependency_graph = (\<lambda>r c. dict_get (map_of ex_graphs c) [(c, {})]),
     is_EngineWatcher = (\<lambda>x. ex_class_of x \<in>
       {Some (Component ''LocalStatWatcher''), Some (Component ''Both''), Some (Component ''EngineOnly'')}),
     is_ConsumerWatcher = (\<lambda>x. ex_class_of x \<in>
       {Some (Component ''LocalStatWatcher''), Some (Component ''Both''), Some (Component ''ConsumerOnly'')})\<rparr>"

definition ex_world :: "component list world" where
  "ex_world = \<lparr>registry = [], calls = []\<rparr>"

definition manifest_of :: "string list \<Rightarrow> service_section \<Rightarrow> manifest" where
  "manifest_of pkgs svc = \<lparr>
     m_plugins = Some \<lparr>default_component_enabled = None, packages = Some pkgs\<rparr>,
     m_configs = None,
     m_service = Some svc\<rparr>"

definition builder_for :: "string list \<Rightarrow> service_section \<Rightarrow> AppBuilder" where
  "builder_for pkgs svc = init (Some (manifest_of pkgs svc))"

definition targets :: "string list \<Rightarrow> service_section" where
  "targets tc = no_service\<lparr>target_components := Some tc\<rparr>"

definition ex_registry :: "component list" where
  "ex_registry =
     [Component ''pkg.a.x'', Component ''pkg.a.y'', Component ''pkg.ab.w'', Component ''pkg.b.z'']"

text \<open>Manifests to run: a spec with arguments, and one builder for each situation below.\<close>

definition with_args :: "string \<Rightarrow> val list \<Rightarrow> (string \<times> val) list \<Rightarrow> component_spec" where
  "with_args n a k = \<lparr>name = n, args = Some a, kwargs = Some k\<rparr>"

definition ex_custom :: AppBuilder where
  "ex_custom = builder_for []
     (no_service\<lparr>publisher := Some (with_args ''app.Pub'' [VInt 1] [(''k'', VStr ''v'')]),
                 consumer := Some (with_args ''app.Cons'' [VStr ''x''] []),
                 watchers := Some [with_args ''app.Plain'' [VBool True] []]\<rparr>)"

definition ex_plain :: AppBuilder where
  "ex_plain = builder_for [] no_service"

definition ex_watched :: AppBuilder where
  "ex_watched = builder_for []
     (no_service\<lparr>watchers := Some [just ''app.EngineOnly'', just ''app.ConsumerOnly'',
                                    just ''app.Both'', just ''app.Plain'']\<rparr>)"

definition ex_two_missing :: AppBuilder where
  "ex_two_missing = builder_for [''pkg.a'']
     (no_service\<lparr>publisher := Some (just ''app.Pub''), format := Some ''app.NoFmt'',
                 consumer := Some (just ''app.NoCons'')\<rparr>)"

definition ex_missing_package :: AppBuilder where
  "ex_missing_package = builder_for [''nope''] (no_service\<lparr>format := Some ''app.NoFmt''\<rparr>)"

definition ex_missing_watcher :: AppBuilder where
  "ex_missing_watcher = builder_for []
     (no_service\<lparr>downloader := Some (just ''app.Down''),
                 watchers := Some [just ''app.Plain'', just ''app.NoWatch'']\<rparr>)"

definition ex_only_watcher :: AppBuilder where
  "ex_only_watcher = builder_for [] (no_service\<lparr>watchers := Some [just ''app.NoWatch'']\<rparr>)"

definition ex_missing_publisher :: AppBuilder where
  "ex_missing_publisher = builder_for []
     (no_service\<lparr>publisher := Some (just ''app.NoPub''),
                 watchers := Some [just ''app.NoWatch'']\<rparr>)"

definition ex_engine :: obj where
  "ex_engine = OInst Engine [ONone, OClass HumanReadableFormat] []"

definition ex_applied :: "event list" where
  "ex_applied = [ApplyDefaultEnabled \<lparr>default_component_enabled = None, packages = Some []\<rparr>,
                 ApplyConfigs \<lparr>default_component_enabled = None, packages = Some []\<rparr>]"

section \<open>Running actions\<close>

lemmas ex_defs = ex_dr_def ex_world_def ex_packages_def ex_classes_def ex_graphs_def
  manifest_of_def builder_for_def targets_def ex_registry_def

lemmas run_defs = build_app_def load_plugins_def get_publisher_def get_downloader_def
  get_format_def get_consumer_def get_watchers_def load_def get_target_components_def
  call_def watch_def emit_def dr_get_component_def dr_load_components_def
  do_apply_default_enabled_def do_apply_configs_def bindE_def returnE_def raiseE_def
  dict_get_def init_def no_plugins_def no_service_def just_def startswith_def
  dict_update_def graph_obj_def not_found_def

lemmas ex_builders = with_args_def ex_custom_def ex_plain_def ex_watched_def ex_two_missing_def
  ex_missing_package_def ex_missing_watcher_def ex_only_watcher_def ex_missing_publisher_def
  ex_engine_def ex_applied_def

lemmas run_more = run_defs ex_defs ex_builders configured_def resolving_registry_def
  lookup_order_def slot_names_def watcher_names_def given_def

lemma run_to: "fst x = a \<Longrightarrow> x = (a, snd x)"
  by (cases x) simp

lemma bindE_Inr: "m w = (Inr x, w1) \<Longrightarrow> bindE m f w = f x w1"
  by (simp add: bindE_def)

lemma bindE_Inl: "m w = (Inl e, w1) \<Longrightarrow> bindE m f w = (Inl e, w1)"
  by (simp add: bindE_def)

lemma bindE_InrE:
  assumes "bindE m f w = (Inr y, w2)"
  obtains x w1 where "m w = (Inr x, w1)" and "f x w1 = (Inr y, w2)"
  using assms by (auto simp: bindE_def split: prod.splits sum.splits)

lemma bindE_assoc: "bindE (bindE m f) g = bindE m (\<lambda>x. bindE (f x) g)"
  by (auto simp: bindE_def fun_eq_iff split: prod.splits sum.splits)

lemma bindE_returnE: "bindE (returnE x) f = f x"
  by (simp add: bindE_def returnE_def)

lemma bindE_apply_default_enabled:
  "bindE (do_apply_default_enabled d p) f w =
     f () (w\<lparr>registry := apply_default_enabled d p (registry w),
              calls := calls w @ [ApplyDefaultEnabled p]\<rparr>)"
  by (simp add: bindE_def do_apply_default_enabled_def)

lemma bindE_apply_configs:
  "bindE (do_apply_configs d p) f w =
     f () (w\<lparr>registry := apply_configs d p (registry w),
              calls := calls w @ [ApplyConfigs p]\<rparr>)"
  by (simp add: bindE_def do_apply_configs_def)

lemma bindE_read: "bindE (\<lambda>w. (Inr (g w), w)) f w = f (g w) w"
  by (simp add: bindE_def)

lemma wire_attach:
  "bindE (wire d self tc) (\<lambda>(eng, con). attach_watchers d self eng con) =
     bindE (get_publisher d self) (\<lambda>pub.
     bindE (get_downloader d self) (\<lambda>dl.
     bindE (get_format d self) (\<lambda>fmt.
     bindE (call Engine [graph_obj tc, fmt] []) (\<lambda>eng.
     bindE (get_consumer d self pub dl eng) (\<lambda>con.
     bindE (get_watchers d self) (\<lambda>ws.
     bindE (watch_each d ws eng con) (\<lambda>_.
     returnE con)))))))"
  by (simp add: wire_def attach_watchers_def bindE_assoc bindE_returnE)

lemma build_app_phases:
  "build_app d self w =
     (case load_plugins d self w of
        (Inl e, w1) \<Rightarrow> (Inl e, w1)
      | (Inr u, w1) \<Rightarrow>
          bindE (wire d self (get_target_components d self (registry (configured d self w1))))
            (\<lambda>(eng, con). attach_watchers d self eng con) (configured d self w1))"
proof (cases "load_plugins d self w")
  case (Pair res w1)
  show ?thesis
  proof (cases res)
    case (Inl e)
    with Pair show ?thesis by (simp add: build_app_def bindE_Inl)
  next
    case (Inr u)
    with Pair have l: "load_plugins d self w = (Inr u, w1)" by simp
    show ?thesis
      by (simp add: build_app_def bindE_Inr [where m = "load_plugins d self", OF l] l
          bindE_apply_default_enabled
          bindE_apply_configs bindE_read wire_attach configured_def)
  qed
qed

section \<open>Loading the plugin packages\<close>

lemma load_packages_append:
  "load_packages d (pre @ post) = bindE (load_packages d pre) (\<lambda>_. load_packages d post)"
  by (induction pre) (auto simp: bindE_def returnE_def fun_eq_iff split: prod.splits sum.splits)

lemma load_packages_calls:
  "load_packages d pkgs w = (Inr u, w1) \<Longrightarrow>
     calls w1 = calls w @ map (\<lambda>q. LoadComponents q False) pkgs"
proof (induction pkgs arbitrary: w)
  case Nil
  then show ?case by (simp add: returnE_def)
next
  case (Cons p pkgs)
  from Cons.prems obtain x w0 where
    a: "dr_load_components d p False w = (Inr x, w0)" and
    b: "load_packages d pkgs w0 = (Inr u, w1)"
    by (auto elim: bindE_InrE)
  from a have "calls w0 = calls w @ [LoadComponents p False]"
    by (auto simp: dr_load_components_def split: sum.splits)
  with Cons.IH [OF b] show ?case by simp
qed

text \<open>
  C4. When the packages \<open>pre\<close> have loaded and loading the next package \<open>p\<close> raises
  \<open>e\<close>, \<open>build_app\<close> raises \<open>e\<close> at once: the only calls it has made are
  \<open>load_components\<close> with \<open>continue_on_error = False\<close> for \<open>pre\<close> and for \<open>p\<close>. The
  packages after \<open>p\<close> are not loaded, no component is looked up and no publisher,
  downloader, engine or consumer is constructed.
\<close>

theorem plugin_failure_aborts:
  assumes "dict_get (packages (plugins self)) [] = pre @ p # post"
    and "load_packages d pre w = (Inr (), w1)"
    and "load_components d p False (registry w1) = Inl e"
  shows "fst (build_app d self w) = Inl e
       \<and> calls (snd (build_app d self w)) =
           calls w @ map (\<lambda>q. LoadComponents q False) (pre @ [p])
       \<and> registry (snd (build_app d self w)) = registry w1"
proof -
  let ?w2 = "w1\<lparr>calls := calls w1 @ [LoadComponents p False]\<rparr>"
  have "dr_load_components d p False w1 = (Inl e, ?w2)"
    using assms(3) by (simp add: dr_load_components_def)
  then have "load_packages d (p # post) w1 = (Inl e, ?w2)"
    by (simp add: bindE_Inl)
  then have "load_plugins d self w = (Inl e, ?w2)"
    using assms(1,2) by (simp add: load_plugins_def load_packages_append bindE_Inr)
  then have "build_app d self w = (Inl e, ?w2)"
    by (simp add: build_app_def bindE_Inl)
  moreover have "calls w1 = calls w @ map (\<lambda>q. LoadComponents q False) pre"
    using assms(2) by (rule load_packages_calls)
  ultimately show ?thesis by simp
qed

theorem plugin_failure_aborts_witness:
  "dict_get (packages (plugins (init (Some (manifest_of [''pkg.a'', ''nope'', ''pkg.b''] no_service))))) []
     = [''pkg.a''] @ ''nope'' # [''pkg.b'']
   \<and> load_packages ex_dr [''pkg.a''] ex_world
     = (Inr (), \<lparr>registry = [Component ''pkg.a.x'', Component ''pkg.a.y''],
                 calls = [LoadComponents ''pkg.a'' False]\<rparr>)
   \<and> fst (build_app ex_dr (init (Some (manifest_of [''pkg.a'', ''nope'', ''pkg.b''] no_service))) ex_world)
     = Inl (Exception ''No module named nope'')
   \<and> calls (snd (build_app ex_dr (init (Some (manifest_of [''pkg.a'', ''nope'', ''pkg.b''] no_service))) ex_world))
     = [LoadComponents ''pkg.a'' False, LoadComponents ''nope'' False]"
proof -
  let ?self = "init (Some (manifest_of [''pkg.a'', ''nope'', ''pkg.b''] no_service))"
  let ?w1 = "\<lparr>registry = [Component ''pkg.a.x'', Component ''pkg.a.y''],
              calls = [LoadComponents ''pkg.a'' False]\<rparr>"
  have h1: "dict_get (packages (plugins ?self)) [] = [''pkg.a''] @ ''nope'' # [''pkg.b'']"
    by (simp add: init_def manifest_of_def dict_get_def)
  have h2: "load_packages ex_dr [''pkg.a''] ex_world = (Inr (), ?w1)"
    by (simp add: ex_defs run_defs)
  have h3: "load_components ex_dr ''nope'' False (registry ?w1) = Inl (Exception ''No module named nope'')"
    by (simp add: ex_defs)
  from plugin_failure_aborts [OF h1 h2 h3] h1 h2 show ?thesis
    by (simp add: ex_world_def)
qed

section \<open>The target closure\<close>

lemma fold_matching:
  "fold (\<lambda>c graph. if P c then dict_update graph (G c) else graph) cs acc =
   fold (\<lambda>g graph. dict_update graph g) (map G (filter P cs)) acc"
  by (induction cs arbitrary: acc) simp_all

lemma startswith_iff: "startswith s tc \<longleftrightarrow> (\<exists>p\<in>set tc. prefix p s)"
  by (simp add: startswith_def list_ex_iff)

lemma get_target_components_eq:
  "get_target_components d self r =
     (let tc = dict_get (target_components (service self)) [];
          g = merge_graphs (map (get_dependency_graph d r)
                (filter (\<lambda>c. startswith (get_name d c) tc) (DELEGATES d r)))
      in if tc = [] then None else if g = [] then None else Some g)"
  by (simp add: get_target_components_def merge_graphs_def fold_matching Let_def)

lemma dict_update_map_of:
  "distinct (map fst g) \<Longrightarrow> map_of (dict_update graph g) = map_of graph ++ map_of g"
proof (induction g arbitrary: graph)
  case Nil
  then show ?case by (simp add: dict_update_def)
next
  case (Cons kv g)
  obtain k v where kv: "kv = (k, v)" by (cases kv)
  from Cons.prems kv have d: "distinct (map fst g)" and k: "k \<notin> fst ` set g" by auto
  have "map_of (dict_update graph (kv # g)) = map_of (dict_update (AList.update k v graph) g)"
    by (simp add: dict_update_def kv)
  also have "\<dots> = map_of (AList.update k v graph) ++ map_of g"
    by (rule Cons.IH [OF d])
  also have "\<dots> = (map_of graph)(k \<mapsto> v) ++ map_of g"
    by (simp add: update_conv')
  also have "\<dots> = map_of graph ++ map_of (kv # g)"
  proof -
    from k have "map_of g k = None" by (simp add: map_of_eq_None_iff)
    then show ?thesis
      by (auto simp: kv fun_eq_iff map_add_def split: option.splits)
  qed
  finally show ?case .
qed

lemma after_targets_same:
  "get_publisher d (without_targets self) = get_publisher d self"
  "get_downloader d (without_targets self) = get_downloader d self"
  "get_format d (without_targets self) = get_format d self"
  "get_consumer d (without_targets self) = get_consumer d self"
  "get_watchers d (without_targets self) = get_watchers d self"
  "load_plugins d (without_targets self) = load_plugins d self"
  "plugins (without_targets self) = plugins self"
  "wire d (without_targets self) = wire d self"
  "attach_watchers d (without_targets self) = attach_watchers d self"
  "configured d (without_targets self) = configured d self"
  by (simp_all add: without_targets_def get_publisher_def get_downloader_def get_format_def
      get_consumer_def get_watchers_def load_plugins_def wire_def attach_watchers_def
      configured_def fun_eq_iff)

text \<open>
  C2. Let \<^verbatim>\<open>service.target_components\<close> be a non-empty list \<open>tc\<close> and let no component
  registered in \<open>r\<close> have a name that starts with an entry of \<open>tc\<close>. Then the target
  closure computed in \<open>r\<close> is \<open>None\<close> (no restriction), the value computed when the key
  is absent, and it is not the empty mapping. When \<open>r\<close> is the registry in which
  \<open>build_app\<close> resolves the targets, the whole run of \<open>build_app\<close> (its result and
  every call it makes, the construction of the engine among them) is the run for the
  manifest without \<^verbatim>\<open>target_components\<close>.
\<close>

theorem no_match_is_no_restriction:
  assumes "dict_get (target_components (service self)) [] = tc" and "tc \<noteq> []"
    and "\<forall>c\<in>set (DELEGATES d r). \<forall>p\<in>set tc. \<not> prefix p (get_name d c)"
  shows "get_target_components d self r = None
       \<and> get_target_components d self r \<noteq> Some []
       \<and> get_target_components d self r = get_target_components d (without_targets self) r
       \<and> (resolving_registry d self w = r \<longrightarrow>
            build_app d self w = build_app d (without_targets self) w)"
proof -
  from assms(3) have "filter (\<lambda>c. startswith (get_name d c) tc) (DELEGATES d r) = []"
    by (simp add: startswith_iff filter_empty_conv)
  then have none: "get_target_components d self r = None"
    using assms(1,2) by (simp add: get_target_components_eq merge_graphs_def)
  have absent: "get_target_components d (without_targets self) r' = None" for r'
    by (simp add: get_target_components_def without_targets_def dict_get_def)
  have build: "build_app d self w = build_app d (without_targets self) w"
    if r: "resolving_registry d self w = r"
  proof (cases "load_plugins d self w")
    case (Pair res w1)
    show ?thesis
    proof (cases res)
      case (Inl e)
      with Pair show ?thesis
        by (simp add: build_app_phases after_targets_same)
    next
      case (Inr u)
      with Pair r none
      have "get_target_components d self (registry (configured d self w1)) = None"
        by (simp add: resolving_registry_def)
      with Pair Inr show ?thesis
        by (simp add: build_app_phases after_targets_same absent)
    qed
  qed
  from none absent build show ?thesis by simp
qed

theorem no_match_is_no_restriction_witness:
  "dict_get (target_components (service (builder_for [''pkg.b''] (targets [''pkg.c''])))) [] = [''pkg.c'']
   \<and> resolving_registry ex_dr (builder_for [''pkg.b''] (targets [''pkg.c''])) ex_world = [Component ''pkg.b.z'']
   \<and> filter (\<lambda>c. \<exists>p\<in>set [''pkg.c'']. prefix p (get_name ex_dr c))
         (DELEGATES ex_dr [Component ''pkg.b.z'']) = []
   \<and> get_target_components ex_dr (builder_for [''pkg.b''] (targets [''pkg.c''])) [Component ''pkg.b.z''] = None
   \<and> build_app ex_dr (builder_for [''pkg.b''] (targets [''pkg.c''])) ex_world
       = build_app ex_dr (without_targets (builder_for [''pkg.b''] (targets [''pkg.c'']))) ex_world"
proof -
  let ?self = "builder_for [''pkg.b''] (targets [''pkg.c''])"
  have h1: "dict_get (target_components (service ?self)) [] = [''pkg.c'']"
    by (simp add: ex_defs init_def no_service_def dict_get_def)
  have h2: "[''pkg.c''] \<noteq> ([] :: string list)" by simp
  have h3: "\<forall>c\<in>set (DELEGATES ex_dr [Component ''pkg.b.z'']). \<forall>p\<in>set [''pkg.c''].
              \<not> prefix p (get_name ex_dr c)"
    by (simp add: ex_defs)
  have h4: "resolving_registry ex_dr ?self ex_world = [Component ''pkg.b.z'']"
    by (simp add: resolving_registry_def configured_def ex_defs run_defs)
  have h5: "filter (\<lambda>c. \<exists>p\<in>set [''pkg.c'']. prefix p (get_name ex_dr c))
         (DELEGATES ex_dr [Component ''pkg.b.z'']) = []"
    by (simp add: ex_defs)
  from no_match_is_no_restriction [OF h1 h2 h3, of ex_world] h1 h4 h5 show ?thesis
    by simp
qed

text \<open>
  C3, as amended. Let \<^verbatim>\<open>service.target_components\<close> be a non-empty list \<open>tc\<close>. The
  registered components the closure is built from are those whose name has an entry
  of \<open>tc\<close> as a prefix (a prefix of the string: the entry \<open>pkg.a\<close> selects \<open>pkg.ab.w\<close>
  too); their dependency graphs are merged in the order of the registry, and the
  others contribute nothing. The closure is that merge when the merge is not empty; an
  empty merge gives \<open>None\<close>, no restriction.
\<close>

theorem target_closure_is_nonempty_merge:
  assumes "dict_get (target_components (service self)) [] = tc" and "tc \<noteq> []"
  shows "get_target_components d self r =
     (let g = merge_graphs (map (get_dependency_graph d r)
                (filter (\<lambda>c. \<exists>p\<in>set tc. prefix p (get_name d c)) (DELEGATES d r)))
      in if g = [] then None else Some g)"
  using assms by (simp add: get_target_components_eq startswith_iff Let_def)

theorem target_closure_is_nonempty_merge_witness:
  "dict_get (target_components (service (builder_for [] (targets [''pkg.a''])))) [] = [''pkg.a'']
   \<and> get_target_components ex_dr (builder_for [] (targets [''pkg.a''])) ex_registry =
       Some [(Component ''pkg.a.x'', {Component ''spec.s1''}),
             (Component ''spec.s1'', {}),
             (Component ''pkg.a.y'', {Component ''spec.s1'', Component ''spec.s2''}),
             (Component ''spec.s2'', {}),
             (Component ''pkg.ab.w'', {})]"
proof -
  let ?self = "builder_for [] (targets [''pkg.a''])"
  have h1: "dict_get (target_components (service ?self)) [] = [''pkg.a'']"
    by (simp add: builder_for_def init_def manifest_of_def targets_def no_service_def dict_get_def)
  have h2: "[''pkg.a''] \<noteq> ([] :: string list)" by simp
  have m: "merge_graphs (map (get_dependency_graph ex_dr ex_registry)
                (filter (\<lambda>c. \<exists>p\<in>set [''pkg.a'']. prefix p (get_name ex_dr c)) (DELEGATES ex_dr ex_registry)))
     = [(Component ''pkg.a.x'', {Component ''spec.s1''}),
             (Component ''spec.s1'', {}),
             (Component ''pkg.a.y'', {Component ''spec.s1'', Component ''spec.s2''}),
             (Component ''spec.s2'', {}),
             (Component ''pkg.ab.w'', {})]"
    by (simp add: ex_defs ex_registry_def merge_graphs_def dict_update_def dict_get_def)
  from target_closure_is_nonempty_merge [OF h1 h2, of ex_dr ex_registry] h1 m show ?thesis
    by simp
qed

text \<open>
  C3 as stated fails where nothing matches: the merge is the empty mapping and the
  closure is \<open>None\<close>.
\<close>

theorem target_closure_counterexample:
  "dict_get (target_components (service (builder_for [] (targets [''pkg.c''])))) [] = [''pkg.c'']
   \<and> merge_graphs (map (get_dependency_graph ex_dr ex_registry)
         (filter (\<lambda>c. \<exists>p\<in>set [''pkg.c'']. prefix p (get_name ex_dr c)) (DELEGATES ex_dr ex_registry))) = []
   \<and> get_target_components ex_dr (builder_for [] (targets [''pkg.c''])) ex_registry = None
   \<and> get_target_components ex_dr (builder_for [] (targets [''pkg.c''])) ex_registry \<noteq>
       Some (merge_graphs (map (get_dependency_graph ex_dr ex_registry)
         (filter (\<lambda>c. \<exists>p\<in>set [''pkg.c'']. prefix p (get_name ex_dr c)) (DELEGATES ex_dr ex_registry))))"
  by (simp add: ex_defs ex_registry_def merge_graphs_def run_defs targets_def builder_for_def)

section \<open>What is handed to \<open>apply_configs\<close>\<close>

lemma build_app_cong:
  "plugins a = plugins b \<Longrightarrow> service a = service b \<Longrightarrow> build_app d a = build_app d b"
  by (simp add: build_app_def load_plugins_def get_publisher_def get_downloader_def
      get_format_def get_consumer_def get_watchers_def get_target_components_def)

text \<open>
  C1. The claim is that the override list of the manifest's \<^verbatim>\<open>configs\<close> section is
  what \<open>build_app\<close> hands to \<^verbatim>\<open>apply_configs\<close>. The code stores that section in
  \<open>configs self\<close> and never reads it: \<open>build_app\<close> is the same action whatever the
  section holds, and \<^verbatim>\<open>apply_configs\<close> receives the \<^verbatim>\<open>plugins\<close> section, as
  \<^verbatim>\<open>apply_default_enabled\<close> does. For the default manifest the override of
  \<^verbatim>\<open>examples.rules.bash_version.report\<close> is in \<open>configs self\<close>, and the first five
  calls show what is applied instead.
\<close>

theorem configs_section_is_never_applied:
  "build_app d (init (Some (m\<lparr>m_configs := c\<rparr>))) = build_app d (init (Some m))
   \<and> build_app d (self\<lparr>configs := v\<rparr>) = build_app d self
   \<and> configs (init None) =
       VSeq [VMap [(''name'', VStr ''examples.rules.bash_version.report''), (''enabled'', VBool True)]]
   \<and> plugins (init None) = \<lparr>default_component_enabled = Some True,
         packages = Some [''insights.specs.default'', ''insights.specs.insights_archive'',
                          ''examples.rules.bash_version'']\<rparr>
   \<and> take 5 (calls (snd (build_app ex_dr (init None) ex_world))) =
       [LoadComponents ''insights.specs.default'' False,
        LoadComponents ''insights.specs.insights_archive'' False,
        LoadComponents ''examples.rules.bash_version'' False,
        ApplyDefaultEnabled (plugins (init None)),
        ApplyConfigs (plugins (init None))]"
proof -
  have "build_app d (init (Some (m\<lparr>m_configs := c\<rparr>))) = build_app d (init (Some m))"
    by (rule build_app_cong) (simp_all add: init_def)
  moreover have "build_app d (self\<lparr>configs := v\<rparr>) = build_app d self"
    by (rule build_app_cong) simp_all
  moreover have "configs (init None) =
       VSeq [VMap [(''name'', VStr ''examples.rules.bash_version.report''), (''enabled'', VBool True)]]"
    by (simp add: init_def default_manifest_def dict_get_def)
  moreover have p: "plugins (init None) = \<lparr>default_component_enabled = Some True,
         packages = Some [''insights.specs.default'', ''insights.specs.insights_archive'',
                          ''examples.rules.bash_version'']\<rparr>"
    by (simp add: init_def default_manifest_def dict_get_def)
  moreover have "take 5 (calls (snd (build_app ex_dr (init None) ex_world))) =
       [LoadComponents ''insights.specs.default'' False,
        LoadComponents ''insights.specs.insights_archive'' False,
        LoadComponents ''examples.rules.bash_version'' False,
        ApplyDefaultEnabled (plugins (init None)),
        ApplyConfigs (plugins (init None))]"
    unfolding p by (simp add: ex_defs run_defs default_manifest_def)
  ultimately show ?thesis by simp
qed

section \<open>The steps of the wiring\<close>

lemma load_found:
  "get_component d (registry w) (name spec) = Some c \<Longrightarrow>
     load d spec w = (Inr (OInst c (positional_args spec) (keyword_args spec)),
       w\<lparr>calls := calls w @ [GetComponent (name spec), Call c (positional_args spec) (keyword_args spec)]\<rparr>)"
  by (simp add: load_def bindE_def dr_get_component_def call_def)

lemma load_missing:
  "get_component d (registry w) (name spec) = None \<Longrightarrow>
     load d spec w = (Inl (not_found (name spec)), w\<lparr>calls := calls w @ [GetComponent (name spec)]\<rparr>)"
  by (simp add: load_def bindE_def dr_get_component_def raiseE_def)

lemma load_InrD:
  assumes "load d spec w = (Inr x, w1)"
  shows "\<exists>c. get_component d (registry w) (name spec) = Some c
           \<and> x = OInst c (positional_args spec) (keyword_args spec)
           \<and> constructed_in x (calls w1)
           \<and> w1 = w\<lparr>calls := calls w @ [GetComponent (name spec), Call c (positional_args spec) (keyword_args spec)]\<rparr>"
proof (cases "get_component d (registry w) (name spec)")
  case None
  with assms show ?thesis by (simp add: load_missing)
next
  case (Some c)
  with assms show ?thesis by (auto simp: load_found)
qed

lemma get_publisher_given: "publisher (service self) = Some spec \<Longrightarrow> get_publisher d self = load d spec"
  by (simp add: get_publisher_def load_def)

lemma get_publisher_default:
  "publisher (service self) = None \<Longrightarrow>
     get_publisher d self w = (Inr (OInst StdOut [] []), w\<lparr>calls := calls w @ [Call StdOut [] []]\<rparr>)"
  by (simp add: get_publisher_def call_def)

lemma get_downloader_given: "downloader (service self) = Some spec \<Longrightarrow> get_downloader d self = load d spec"
  by (simp add: get_downloader_def)

lemma get_downloader_default:
  "downloader (service self) = None \<Longrightarrow> get_downloader d self w = (Inr (OClass LocalFS), w)"
  by (simp add: get_downloader_def returnE_def)

lemma get_format_default:
  "format (service self) = None \<Longrightarrow> get_format d self w = (Inr (OClass HumanReadableFormat), w)"
  by (simp add: get_format_def returnE_def)

lemma get_format_found:
  "format (service self) = Some n \<Longrightarrow> get_component d (registry w) n = Some c \<Longrightarrow>
     get_format d self w = (Inr (OClass c), w\<lparr>calls := calls w @ [GetComponent n]\<rparr>)"
  by (simp add: get_format_def bindE_def dr_get_component_def returnE_def)

lemma get_format_missing:
  "format (service self) = Some n \<Longrightarrow> get_component d (registry w) n = None \<Longrightarrow>
     get_format d self w = (Inl (not_found n), w\<lparr>calls := calls w @ [GetComponent n]\<rparr>)"
  by (simp add: get_format_def bindE_def dr_get_component_def raiseE_def)

lemma get_consumer_default:
  "consumer (service self) = None \<Longrightarrow>
     get_consumer d self pub dl eng w =
       (Inr (OInst Interactive [pub, dl, eng] []),
        w\<lparr>calls := calls w @ [Call Interactive [pub, dl, eng] []]\<rparr>)"
  by (simp add: get_consumer_def call_def)

lemma get_consumer_found:
  "consumer (service self) = Some spec \<Longrightarrow> get_component d (registry w) (name spec) = Some c \<Longrightarrow>
     get_consumer d self pub dl eng w =
       (Inr (OInst c ([pub, dl, eng] @ positional_args spec) (keyword_args spec)),
        w\<lparr>calls := calls w @ [GetComponent (name spec),
                                Call c ([pub, dl, eng] @ positional_args spec) (keyword_args spec)]\<rparr>)"
  by (simp add: get_consumer_def bindE_def dr_get_component_def call_def)

lemma get_consumer_missing:
  "consumer (service self) = Some spec \<Longrightarrow> get_component d (registry w) (name spec) = None \<Longrightarrow>
     get_consumer d self pub dl eng w =
       (Inl (not_found (name spec)), w\<lparr>calls := calls w @ [GetComponent (name spec)]\<rparr>)"
  by (simp add: get_consumer_def bindE_def dr_get_component_def raiseE_def)

lemma watch_each_run:
  "watch_each d ws eng con w =
     (Inr (), w\<lparr>calls := calls w @ concat (map (watch_events d eng con) ws)\<rparr>)"
proof (induction ws arbitrary: w)
  case Nil
  show ?case by (simp add: returnE_def)
next
  case (Cons x ws)
  show ?case
    by (simp add: Cons.IH bindE_def watch_def emit_def returnE_def watch_events_def)
qed

lemma bindE_call:
  "bindE (call c as kws) f w = f (OInst c as kws) (w\<lparr>calls := calls w @ [Call c as kws]\<rparr>)"
  by (simp add: bindE_def call_def)

lemma load_each_InrD:
  "load_each d ws w = (Inr xs, w1) \<Longrightarrow>
     list_all2 (built_from d (registry w)) ws xs
     \<and> list_all (\<lambda>x. constructed_in x (calls w1)) xs
     \<and> registry w1 = registry w
     \<and> filter is_Watch (calls w1) = filter is_Watch (calls w)
     \<and> prefix (calls w) (calls w1)"
proof (induction ws arbitrary: w xs)
  case Nil
  then show ?case by (auto simp: returnE_def)
next
  case (Cons s ws)
  from Cons.prems obtain x wa where a: "load d s w = (Inr x, wa)"
    and r: "bindE (load_each d ws) (\<lambda>xs. returnE (x # xs)) wa = (Inr xs, w1)"
    by (auto elim: bindE_InrE)
  from r obtain ys where b: "load_each d ws wa = (Inr ys, w1)" and xs: "xs = x # ys"
    by (auto elim!: bindE_InrE simp: returnE_def)
  from load_InrD [OF a] obtain c where c: "get_component d (registry w) (name s) = Some c"
    "x = OInst c (positional_args s) (keyword_args s)"
    "wa = w\<lparr>calls := calls w @ [GetComponent (name s), Call c (positional_args s) (keyword_args s)]\<rparr>"
    by blast
  note ih = Cons.IH [OF b]
  from ih c(3) have pre: "prefix (calls w @ [GetComponent (name s), Call c (positional_args s) (keyword_args s)]) (calls w1)"
    by simp
  from set_mono_prefix [OF pre] have "Call c (positional_args s) (keyword_args s) \<in> set (calls w1)"
    by auto
  moreover from pre have "prefix (calls w) (calls w1)" by (rule append_prefixD)
  ultimately show ?case
    using ih c xs by (simp add: built_from_def)
qed

lemma get_watchers_InrD:
  "get_watchers d self w = (Inr xs, w1) \<Longrightarrow>
     list_all2 (built_from d (registry w)) (dict_get (watchers (service self)) []) xs
     \<and> list_all (\<lambda>x. constructed_in x (calls w1)) xs
     \<and> registry w1 = registry w
     \<and> filter is_Watch (calls w1) = filter is_Watch (calls w)
     \<and> prefix (calls w) (calls w1)"
  by (cases "watchers (service self)")
     (auto simp: get_watchers_def returnE_def dict_get_def dest: load_each_InrD)

lemma get_publisher_InrD:
  assumes "get_publisher d self w = (Inr pub, w1)"
  shows "registry w1 = registry w
       \<and> filter is_Watch (calls w1) = filter is_Watch (calls w)
       \<and> prefix (calls w) (calls w1)
       \<and> constructed_in pub (calls w1)
       \<and> (case publisher (service self) of
             None \<Rightarrow> pub = OInst StdOut [] [] \<and> w1 = w\<lparr>calls := calls w @ [Call StdOut [] []]\<rparr>
           | Some spec \<Rightarrow> built_from d (registry w) spec pub)"
proof (cases "publisher (service self)")
  case None
  with assms show ?thesis by (auto simp: get_publisher_default)
next
  case (Some spec)
  with assms have "load d spec w = (Inr pub, w1)" by (simp add: get_publisher_given)
  from load_InrD [OF this] Some show ?thesis by (auto simp: built_from_def)
qed

lemma get_downloader_InrD:
  assumes "get_downloader d self w = (Inr dl, w1)"
  shows "registry w1 = registry w
       \<and> filter is_Watch (calls w1) = filter is_Watch (calls w)
       \<and> prefix (calls w) (calls w1)
       \<and> (case downloader (service self) of
             None \<Rightarrow> dl = OClass LocalFS \<and> w1 = w
           | Some spec \<Rightarrow> built_from d (registry w) spec dl \<and> constructed_in dl (calls w1))"
proof (cases "downloader (service self)")
  case None
  with assms show ?thesis by (auto simp: get_downloader_default)
next
  case (Some spec)
  with assms have "load d spec w = (Inr dl, w1)" by (simp add: get_downloader_given)
  from load_InrD [OF this] Some show ?thesis by (auto simp: built_from_def)
qed

lemma get_format_InrD:
  assumes "get_format d self w = (Inr fmt, w1)"
  shows "registry w1 = registry w
       \<and> filter is_Watch (calls w1) = filter is_Watch (calls w)
       \<and> prefix (calls w) (calls w1)
       \<and> (case format (service self) of
             None \<Rightarrow> fmt = OClass HumanReadableFormat \<and> w1 = w
           | Some n \<Rightarrow> (\<exists>c. get_component d (registry w) n = Some c \<and> fmt = OClass c))"
proof (cases "format (service self)")
  case None
  with assms show ?thesis by (auto simp: get_format_default)
next
  case (Some n)
  with assms show ?thesis
    by (cases "get_component d (registry w) n") (auto simp: get_format_found get_format_missing)
qed

lemma get_consumer_InrD:
  assumes "get_consumer d self pub dl eng w = (Inr con, w1)"
  shows "\<exists>c. con = OInst c ([pub, dl, eng] @ given_args (consumer (service self)))
                    (given_kwargs (consumer (service self)))
           \<and> calls w1 \<noteq> []
           \<and> last (calls w1) = Call c ([pub, dl, eng] @ given_args (consumer (service self)))
                    (given_kwargs (consumer (service self)))
           \<and> prefix (calls w) (calls w1)
           \<and> registry w1 = registry w
           \<and> filter is_Watch (calls w1) = filter is_Watch (calls w)
           \<and> (case consumer (service self) of
                 None \<Rightarrow> c = Interactive
                      \<and> w1 = w\<lparr>calls := calls w @ [Call Interactive [pub, dl, eng] []]\<rparr>
               | Some spec \<Rightarrow> get_component d (registry w) (name spec) = Some c)"
proof (cases "consumer (service self)")
  case None
  with assms show ?thesis by (auto simp: get_consumer_default given_args_def given_kwargs_def)
next
  case (Some spec)
  with assms show ?thesis
    by (cases "get_component d (registry w) (name spec)")
       (auto simp: get_consumer_found get_consumer_missing given_args_def given_kwargs_def)
qed

lemma wire_InrD:
  assumes "wire d self tc w = (Inr (eng, con), w2)"
  shows "\<exists>pub dl fmt wa wb wc.
           get_publisher d self w = (Inr pub, wa)
         \<and> get_downloader d self wa = (Inr dl, wb)
         \<and> get_format d self wb = (Inr fmt, wc)
         \<and> eng = OInst Engine [graph_obj tc, fmt] []
         \<and> get_consumer d self pub dl eng
             (wc\<lparr>calls := calls wc @ [Call Engine [graph_obj tc, fmt] []]\<rparr>) = (Inr con, w2)"
proof -
  from assms obtain pub wa where 1: "get_publisher d self w = (Inr pub, wa)"
    and r1: "bindE (get_downloader d self) (\<lambda>dl.
     bindE (get_format d self) (\<lambda>fmt.
     bindE (call Engine [graph_obj tc, fmt] []) (\<lambda>eng.
     bindE (get_consumer d self pub dl eng) (\<lambda>con.
     returnE (eng, con))))) wa = (Inr (eng, con), w2)"
    unfolding wire_def by (erule bindE_InrE)
  from r1 obtain dl wb where 2: "get_downloader d self wa = (Inr dl, wb)"
    and r2: "bindE (get_format d self) (\<lambda>fmt.
     bindE (call Engine [graph_obj tc, fmt] []) (\<lambda>eng.
     bindE (get_consumer d self pub dl eng) (\<lambda>con.
     returnE (eng, con)))) wb = (Inr (eng, con), w2)"
    by (erule bindE_InrE)
  from r2 obtain fmt wc where 3: "get_format d self wb = (Inr fmt, wc)"
    and r3: "bindE (call Engine [graph_obj tc, fmt] []) (\<lambda>eng.
     bindE (get_consumer d self pub dl eng) (\<lambda>con.
     returnE (eng, con))) wc = (Inr (eng, con), w2)"
    by (erule bindE_InrE)
  from r3 have r4: "bindE (get_consumer d self pub dl (OInst Engine [graph_obj tc, fmt] [])) (\<lambda>con.
     returnE (OInst Engine [graph_obj tc, fmt] [], con))
       (wc\<lparr>calls := calls wc @ [Call Engine [graph_obj tc, fmt] []]\<rparr>) = (Inr (eng, con), w2)"
    by (simp add: bindE_call)
  from r4 have 4: "eng = OInst Engine [graph_obj tc, fmt] []"
    and 5: "get_consumer d self pub dl (OInst Engine [graph_obj tc, fmt] [])
       (wc\<lparr>calls := calls wc @ [Call Engine [graph_obj tc, fmt] []]\<rparr>) = (Inr con, w2)"
    by (auto elim!: bindE_InrE simp: returnE_def)
  from 1 2 3 4 5 show ?thesis by blast
qed

lemma attach_watchers_InrD:
  assumes "attach_watchers d self eng con w2 = (Inr x, w3)"
  shows "x = con \<and> (\<exists>ws we. get_watchers d self w2 = (Inr ws, we)
           \<and> w3 = we\<lparr>calls := calls we @ concat (map (watch_events d eng con) ws)\<rparr>)"
  using assms unfolding attach_watchers_def
  by (auto elim!: bindE_InrE simp: watch_each_run returnE_def)

lemma build_app_InrD:
  assumes "build_app d self w = (Inr con, w3)"
  shows "\<exists>w1 eng w2. load_plugins d self w = (Inr (), w1)
           \<and> wire d self (get_target_components d self (registry (configured d self w1)))
                (configured d self w1) = (Inr (eng, con), w2)
           \<and> attach_watchers d self eng con w2 = (Inr con, w3)"
proof (cases "load_plugins d self w")
  case (Pair res w1)
  show ?thesis
  proof (cases res)
    case (Inl e)
    with Pair assms show ?thesis by (simp add: build_app_phases)
  next
    case (Inr u)
    with Pair assms have "bindE (wire d self (get_target_components d self (registry (configured d self w1))))
            (\<lambda>(eng, con). attach_watchers d self eng con) (configured d self w1) = (Inr con, w3)"
      by (simp add: build_app_phases)
    then obtain ec w2 where a: "wire d self (get_target_components d self (registry (configured d self w1)))
          (configured d self w1) = (Inr ec, w2)"
      and b: "(case ec of (eng, con) \<Rightarrow> attach_watchers d self eng con) w2 = (Inr con, w3)"
      by (erule bindE_InrE)
    obtain eng con' where ec: "ec = (eng, con')" by (cases ec)
    with b have b': "attach_watchers d self eng con' w2 = (Inr con, w3)" by simp
    from attach_watchers_InrD [OF b'] have "con = con'" by simp
    with a b' ec Pair Inr show ?thesis by auto
  qed
qed

section \<open>Names are looked up in order\<close>

lemma find_app:
  "find P (xs @ ys) = (case find P xs of None \<Rightarrow> find P ys | Some x \<Rightarrow> Some x)"
  by (induction xs) simp_all

lemma resolves_namesD:
  "resolves_names d m ns \<Longrightarrow>
     registry (snd (m w)) = registry w
     \<and> (case find (\<lambda>n. get_component d (registry w) n = None) ns of
          Some n \<Rightarrow> fst (m w) = Inl (not_found n)
        | None \<Rightarrow> (\<exists>x. fst (m w) = Inr x))"
  by (simp add: resolves_names_def)

lemma resolves_names_bindE:
  assumes "resolves_names d m ns" and "\<And>x. resolves_names d (f x) ms"
  shows "resolves_names d (bindE m f) (ns @ ms)"
  unfolding resolves_names_def
proof (intro allI)
  fix w
  obtain res w1 where mw: "m w = (res, w1)" by (cases "m w")
  note m = resolves_namesD [OF assms(1), of w]
  from m mw have r1: "registry w1 = registry w" by simp
  show "registry (snd (bindE m f w)) = registry w \<and>
        (case find (\<lambda>n. get_component d (registry w) n = None) (ns @ ms) of
           Some n \<Rightarrow> fst (bindE m f w) = Inl (not_found n)
         | None \<Rightarrow> (\<exists>x. fst (bindE m f w) = Inr x))"
  proof (cases "find (\<lambda>n. get_component d (registry w) n = None) ns")
    case (Some n)
    with m mw have "res = Inl (not_found n)" by simp
    with mw r1 Some show ?thesis by (simp add: bindE_def find_app)
  next
    case None
    with m mw obtain x where "res = Inr x" by auto
    with mw have b: "bindE m f w = f x w1" by (simp add: bindE_def)
    from resolves_namesD [OF assms(2) [of x], of w1] b r1 None show ?thesis
      by (auto simp: find_app split: option.splits)
  qed
qed

lemma resolves_names_returnE: "resolves_names d (returnE x) []"
  by (simp add: resolves_names_def returnE_def)

lemma resolves_names_call: "resolves_names d (call c as kws) []"
  by (simp add: resolves_names_def call_def)

lemma resolves_names_load: "resolves_names d (load d spec) [name spec]"
  unfolding resolves_names_def
proof (intro allI)
  fix w
  show "registry (snd (load d spec w)) = registry w \<and>
        (case find (\<lambda>n. get_component d (registry w) n = None) [name spec] of
           Some n \<Rightarrow> fst (load d spec w) = Inl (not_found n)
         | None \<Rightarrow> (\<exists>x. fst (load d spec w) = Inr x))"
    by (cases "get_component d (registry w) (name spec)") (simp_all add: load_found load_missing)
qed

lemma resolves_names_get_publisher:
  "resolves_names d (get_publisher d self) (map name (given (publisher (service self))))"
proof (cases "publisher (service self)")
  case None
  then show ?thesis
    by (simp add: resolves_names_def given_def get_publisher_default)
next
  case (Some spec)
  then show ?thesis
    by (simp add: given_def get_publisher_given resolves_names_load)
qed

lemma resolves_names_get_downloader:
  "resolves_names d (get_downloader d self) (map name (given (downloader (service self))))"
proof (cases "downloader (service self)")
  case None
  then show ?thesis
    by (simp add: resolves_names_def given_def get_downloader_default)
next
  case (Some spec)
  then show ?thesis
    by (simp add: given_def get_downloader_given resolves_names_load)
qed

lemma resolves_names_get_format:
  "resolves_names d (get_format d self) (given (format (service self)))"
proof (cases "format (service self)")
  case None
  then show ?thesis
    by (simp add: resolves_names_def given_def get_format_default)
next
  case (Some n)
  show ?thesis
    unfolding resolves_names_def
  proof (intro allI)
    fix w
    show "registry (snd (get_format d self w)) = registry w \<and>
        (case find (\<lambda>n. get_component d (registry w) n = None) (given (format (service self))) of
           Some n \<Rightarrow> fst (get_format d self w) = Inl (not_found n)
         | None \<Rightarrow> (\<exists>x. fst (get_format d self w) = Inr x))"
      using Some
      by (cases "get_component d (registry w) n")
         (simp_all add: given_def get_format_found get_format_missing)
  qed
qed

lemma resolves_names_get_consumer:
  "resolves_names d (get_consumer d self pub dl eng) (map name (given (consumer (service self))))"
proof (cases "consumer (service self)")
  case None
  then show ?thesis
    by (simp add: resolves_names_def given_def get_consumer_default)
next
  case (Some spec)
  show ?thesis
    unfolding resolves_names_def
  proof (intro allI)
    fix w
    show "registry (snd (get_consumer d self pub dl eng w)) = registry w \<and>
        (case find (\<lambda>n. get_component d (registry w) n = None)
                (map name (given (consumer (service self)))) of
           Some n \<Rightarrow> fst (get_consumer d self pub dl eng w) = Inl (not_found n)
         | None \<Rightarrow> (\<exists>x. fst (get_consumer d self pub dl eng w) = Inr x))"
      using Some
      by (cases "get_component d (registry w) (name spec)")
         (simp_all add: given_def get_consumer_found get_consumer_missing)
  qed
qed

lemma resolves_names_load_each: "resolves_names d (load_each d ws) (map name ws)"
proof (induction ws)
  case Nil
  show ?case by (simp add: resolves_names_returnE)
next
  case (Cons s ws)
  have "resolves_names d (bindE (load d s) (\<lambda>x. bindE (load_each d ws) (\<lambda>xs. returnE (x # xs))))
          ([name s] @ (map name ws @ []))"
    by (intro resolves_names_bindE resolves_names_load Cons.IH resolves_names_returnE)
  then show ?case by simp
qed

lemma resolves_names_watch_each: "resolves_names d (watch_each d ws eng con) []"
  by (simp add: resolves_names_def watch_each_run)

lemma resolves_names_get_watchers: "resolves_names d (get_watchers d self) (watcher_names self)"
  by (cases "watchers (service self)")
     (simp_all add: get_watchers_def watcher_names_def dict_get_def resolves_names_returnE
        resolves_names_load_each)

lemma resolves_names_wire: "resolves_names d (wire d self tc) (slot_names self)"
proof -
  have "resolves_names d (wire d self tc)
     (map name (given (publisher (service self))) @
      map name (given (downloader (service self))) @
      given (format (service self)) @ [] @
      map name (given (consumer (service self))) @ [])"
    unfolding wire_def
    by (intro resolves_names_bindE resolves_names_get_publisher resolves_names_get_downloader
        resolves_names_get_format resolves_names_call resolves_names_get_consumer
        resolves_names_returnE)
  then show ?thesis by (simp add: slot_names_def)
qed

lemma resolves_names_attach_watchers:
  "resolves_names d (attach_watchers d self eng con) (watcher_names self)"
proof -
  have "resolves_names d (attach_watchers d self eng con) (watcher_names self @ [] @ [])"
    unfolding attach_watchers_def
    by (intro resolves_names_bindE resolves_names_get_watchers resolves_names_watch_each
        resolves_names_returnE)
  then show ?thesis by simp
qed

lemma resolves_names_build:
  "resolves_names d
     (bindE (wire d self tc) (\<lambda>(eng, con). attach_watchers d self eng con)) (lookup_order self)"
  unfolding lookup_order_def
  by (intro resolves_names_bindE resolves_names_wire) (simp add: split_def resolves_names_attach_watchers)

lemma build_app_first_unresolved:
  assumes "load_plugins d self w = (Inr (), w1)"
    and "find (\<lambda>n. get_component d (registry (configured d self w1)) n = None) (lookup_order self) = Some n"
  shows "fst (build_app d self w) = Inl (not_found n)"
proof -
  from assms(2)
  have "fst (bindE (wire d self (get_target_components d self (registry (configured d self w1))))
              (\<lambda>(eng, con). attach_watchers d self eng con) (configured d self w1)) = Inl (not_found n)"
    using resolves_namesD [OF resolves_names_build [of d self "get_target_components d self (registry (configured d self w1))"], of "configured d self w1"]
    by simp
  with assms(1) show ?thesis by (simp add: build_app_phases)
qed

section \<open>A build that returns\<close>

lemma wire_success:
  assumes "wire d self tc w = (Inr (eng, con), w2)"
  shows "\<exists>pub dl fmt c.
      eng = OInst Engine [graph_obj tc, fmt] []
    \<and> con = OInst c ([pub, dl, eng] @ given_args (consumer (service self)))
               (given_kwargs (consumer (service self)))
    \<and> calls w2 \<noteq> []
    \<and> last (calls w2) = Call c ([pub, dl, eng] @ given_args (consumer (service self)))
               (given_kwargs (consumer (service self)))
    \<and> constructed_in eng (calls w2)
    \<and> slot_built d (registry w) (publisher (service self)) (OInst StdOut [] []) pub
    \<and> constructed_in pub (calls w2)
    \<and> slot_built d (registry w) (downloader (service self)) (OClass LocalFS) dl
    \<and> (downloader (service self) = None \<or> constructed_in dl (calls w2))
    \<and> (case format (service self) of
          None \<Rightarrow> fmt = OClass HumanReadableFormat
        | Some n \<Rightarrow> (\<exists>cf. get_component d (registry w) n = Some cf \<and> fmt = OClass cf))
    \<and> (case consumer (service self) of
          None \<Rightarrow> c = Interactive
        | Some spec \<Rightarrow> get_component d (registry w) (name spec) = Some c)
    \<and> registry w2 = registry w
    \<and> filter is_Watch (calls w2) = filter is_Watch (calls w)
    \<and> prefix (calls w) (calls w2)"
proof -
  from wire_InrD [OF assms] obtain pub dl fmt wa wb wc where
    1: "get_publisher d self w = (Inr pub, wa)" and
    2: "get_downloader d self wa = (Inr dl, wb)" and
    3: "get_format d self wb = (Inr fmt, wc)" and
    4: "eng = OInst Engine [graph_obj tc, fmt] []" and
    5: "get_consumer d self pub dl eng
             (wc\<lparr>calls := calls wc @ [Call Engine [graph_obj tc, fmt] []]\<rparr>) = (Inr con, w2)"
    by blast
  let ?wd = "wc\<lparr>calls := calls wc @ [Call Engine [graph_obj tc, fmt] []]\<rparr>"
  note p = get_publisher_InrD [OF 1]
  note dl = get_downloader_InrD [OF 2]
  note f = get_format_InrD [OF 3]
  from get_consumer_InrD [OF 5] obtain c where cc:
    "con = OInst c ([pub, dl, eng] @ given_args (consumer (service self)))
                    (given_kwargs (consumer (service self)))
           \<and> calls w2 \<noteq> []
           \<and> last (calls w2) = Call c ([pub, dl, eng] @ given_args (consumer (service self)))
                    (given_kwargs (consumer (service self)))
           \<and> prefix (calls ?wd) (calls w2)
           \<and> registry w2 = registry ?wd
           \<and> filter is_Watch (calls w2) = filter is_Watch (calls ?wd)
           \<and> (case consumer (service self) of
                 None \<Rightarrow> c = Interactive
                      \<and> w2 = ?wd\<lparr>calls := calls ?wd @ [Call Interactive [pub, dl, eng] []]\<rparr>
               | Some spec \<Rightarrow> get_component d (registry ?wd) (name spec) = Some c)" ..
  then have c: "con = OInst c ([pub, dl, eng] @ given_args (consumer (service self)))
               (given_kwargs (consumer (service self)))"
    "calls w2 \<noteq> []"
    "last (calls w2) = Call c ([pub, dl, eng] @ given_args (consumer (service self)))
               (given_kwargs (consumer (service self)))"
    "registry w2 = registry ?wd"
    "filter is_Watch (calls w2) = filter is_Watch (calls ?wd)"
    "prefix (calls ?wd) (calls w2)"
    by simp_all
  from cc have c7: "case consumer (service self) of
          None \<Rightarrow> c = Interactive
        | Some spec \<Rightarrow> get_component d (registry ?wd) (name spec) = Some c"
    by (simp split: option.splits)
  have p1: "prefix (calls w) (calls wa)" using p by simp
  have p2: "prefix (calls wa) (calls wb)" using dl by simp
  have p3: "prefix (calls wb) (calls wc)" using f by simp
  have p4: "prefix (calls wc) (calls ?wd)" by simp
  note p5 = c(6)
  note d2 = p5
  note c2 = prefix_order.trans [OF p4 d2]
  note b2 = prefix_order.trans [OF p3 c2]
  note a2 = prefix_order.trans [OF p2 b2]
  note w2 = prefix_order.trans [OF p1 a2]
  have regs: "registry wa = registry w" "registry wb = registry w" "registry wc = registry w"
    "registry w2 = registry w"
    using p dl f c(4) by simp_all
  note sub = set_mono_prefix [OF a2] set_mono_prefix [OF b2] set_mono_prefix [OF d2]
  have e1: "constructed_in eng (calls w2)"
    using 4 sub(3) by (simp add: subset_iff)
  have e2: "slot_built d (registry w) (publisher (service self)) (OInst StdOut [] []) pub"
    using p by (simp add: slot_built_def split: option.splits)
  have e3: "constructed_in pub (calls w2)"
  proof -
    from p have "constructed_in pub (calls wa)" by simp
    with sub(1) show ?thesis by (cases pub) (simp_all add: subset_iff)
  qed
  have e4: "slot_built d (registry w) (downloader (service self)) (OClass LocalFS) dl"
    using dl regs by (simp add: slot_built_def split: option.splits)
  have e5: "downloader (service self) = None \<or> constructed_in dl (calls w2)"
  proof (cases "downloader (service self)")
    case None
    then show ?thesis by simp
  next
    case (Some spec)
    with dl have "constructed_in dl (calls wb)" by simp
    with sub(2) show ?thesis by (cases dl) (simp_all add: subset_iff)
  qed
  have e6: "case format (service self) of
          None \<Rightarrow> fmt = OClass HumanReadableFormat
        | Some n \<Rightarrow> (\<exists>cf. get_component d (registry w) n = Some cf \<and> fmt = OClass cf)"
    using f regs by (simp split: option.splits)
  have e7: "case consumer (service self) of
          None \<Rightarrow> c = Interactive
        | Some spec \<Rightarrow> get_component d (registry w) (name spec) = Some c"
    using c7 regs by (simp split: option.splits)
  have e8: "filter is_Watch (calls w2) = filter is_Watch (calls w)"
    using p dl f c(5) by simp
  show ?thesis
    apply (rule exI [of _ pub], rule exI [of _ dl], rule exI [of _ fmt], rule exI [of _ c])
    apply (intro conjI)
                 apply (fact 4)
                apply (fact c(1))
               apply (fact c(2))
              apply (fact c(3))
             apply (fact e1)
            apply (fact e2)
           apply (fact e3)
          apply (fact e4)
         apply (fact e5)
        apply (fact e6)
       apply (fact e7)
      apply (fact regs(4))
     apply (fact e8)
    apply (fact w2)
    done
qed

lemma obj_not_own_argument: "x \<in> set as \<Longrightarrow> x \<noteq> OInst c as kws"
proof
  assume x: "x \<in> set as" and eq: "x = OInst c as kws"
  from x have "size x \<le> size_list size as" by (rule size_list_estimation') simp
  also have "\<dots> < size (OInst c as kws)" by simp
  finally show False using eq by simp
qed

lemma filter_is_Watch_loads: "filter is_Watch (map (\<lambda>q. LoadComponents q b) pkgs) = []"
  by (induction pkgs) simp_all

lemma load_plugins_InrD:
  assumes "load_plugins d self w = (Inr u, w1)"
  shows "filter is_Watch (calls w1) = filter is_Watch (calls w) \<and> prefix (calls w) (calls w1)"
proof -
  from assms have "calls w1 = calls w @ map (\<lambda>q. LoadComponents q False) (dict_get (packages (plugins self)) [])"
    unfolding load_plugins_def by (rule load_packages_calls)
  then show ?thesis by (simp add: filter_is_Watch_loads)
qed

lemma build_app_success:
  assumes "build_app d self w = (Inr con, w3)"
  shows "\<exists>pub dl fmt eng c ws.
      eng = OInst Engine [graph_obj (get_target_components d self (resolving_registry d self w)), fmt] []
    \<and> con = OInst c ([pub, dl, eng] @ given_args (consumer (service self)))
               (given_kwargs (consumer (service self)))
    \<and> constructed_in con (calls w3)
    \<and> constructed_in eng (calls w3)
    \<and> slot_built d (resolving_registry d self w) (publisher (service self)) (OInst StdOut [] []) pub
    \<and> constructed_in pub (calls w3)
    \<and> slot_built d (resolving_registry d self w) (downloader (service self)) (OClass LocalFS) dl
    \<and> (case format (service self) of
          None \<Rightarrow> fmt = OClass HumanReadableFormat
        | Some n \<Rightarrow> (\<exists>cf. get_component d (resolving_registry d self w) n = Some cf \<and> fmt = OClass cf))
    \<and> (case consumer (service self) of
          None \<Rightarrow> c = Interactive
        | Some spec \<Rightarrow> get_component d (resolving_registry d self w) (name spec) = Some c)
    \<and> list_all2 (built_from d (resolving_registry d self w)) (dict_get (watchers (service self)) []) ws
    \<and> list_all (\<lambda>x. constructed_in x (calls w3)) ws
    \<and> filter is_Watch (calls w3) =
        filter is_Watch (calls w) @ concat (map (watch_events d eng con) ws)"
proof -
  from build_app_InrD [OF assms] obtain w1 eng w2 where
    l: "load_plugins d self w = (Inr (), w1)" and
    wi: "wire d self (get_target_components d self (registry (configured d self w1)))
                (configured d self w1) = (Inr (eng, con), w2)" and
    at: "attach_watchers d self eng con w2 = (Inr con, w3)"
    by blast
  let ?r = "resolving_registry d self w"
  from l have r: "registry (configured d self w1) = ?r"
    by (simp add: resolving_registry_def)
  from wire_success [OF wi] obtain pub dl fmt c where ws0:
    "eng = OInst Engine [graph_obj (get_target_components d self (registry (configured d self w1))), fmt] []
    \<and> con = OInst c ([pub, dl, eng] @ given_args (consumer (service self)))
               (given_kwargs (consumer (service self)))
    \<and> calls w2 \<noteq> []
    \<and> last (calls w2) = Call c ([pub, dl, eng] @ given_args (consumer (service self)))
               (given_kwargs (consumer (service self)))
    \<and> constructed_in eng (calls w2)
    \<and> slot_built d (registry (configured d self w1)) (publisher (service self)) (OInst StdOut [] []) pub
    \<and> constructed_in pub (calls w2)
    \<and> slot_built d (registry (configured d self w1)) (downloader (service self)) (OClass LocalFS) dl
    \<and> (downloader (service self) = None \<or> constructed_in dl (calls w2))
    \<and> (case format (service self) of
          None \<Rightarrow> fmt = OClass HumanReadableFormat
        | Some n \<Rightarrow> (\<exists>cf. get_component d (registry (configured d self w1)) n = Some cf \<and> fmt = OClass cf))
    \<and> (case consumer (service self) of
          None \<Rightarrow> c = Interactive
        | Some spec \<Rightarrow> get_component d (registry (configured d self w1)) (name spec) = Some c)
    \<and> registry w2 = registry (configured d self w1)
    \<and> filter is_Watch (calls w2) = filter is_Watch (calls (configured d self w1))
    \<and> prefix (calls (configured d self w1)) (calls w2)"
    by (elim exE) (rule that)
  note ws = ws0 [unfolded r]
  from ws have f1: "eng = OInst Engine [graph_obj (get_target_components d self ?r), fmt] []"
    and f2: "con = OInst c ([pub, dl, eng] @ given_args (consumer (service self)))
               (given_kwargs (consumer (service self)))"
    and f3: "slot_built d ?r (publisher (service self)) (OInst StdOut [] []) pub"
    and f4: "slot_built d ?r (downloader (service self)) (OClass LocalFS) dl"
    and f5: "case format (service self) of
          None \<Rightarrow> fmt = OClass HumanReadableFormat
        | Some n \<Rightarrow> (\<exists>cf. get_component d ?r n = Some cf \<and> fmt = OClass cf)"
    and f6: "case consumer (service self) of
          None \<Rightarrow> c = Interactive
        | Some spec \<Rightarrow> get_component d ?r (name spec) = Some c"
    and f7: "registry w2 = ?r"
    and f8: "filter is_Watch (calls w2) = filter is_Watch (calls (configured d self w1))"
    by blast+
  from attach_watchers_InrD [OF at] obtain ws' we where
    gw: "get_watchers d self w2 = (Inr ws', we)" and
    w3: "w3 = we\<lparr>calls := calls we @ concat (map (watch_events d eng con) ws')\<rparr>"
    by blast
  note g = get_watchers_InrD [OF gw, unfolded f7]
  from g have g1: "list_all2 (built_from d ?r) (dict_get (watchers (service self)) []) ws'"
    by blast
  from g have sub: "set (calls w2) \<subseteq> set (calls w3)"
    using w3 by (auto dest: set_mono_prefix)
  from g have sub': "set (calls we) \<subseteq> set (calls w3)"
    using w3 by auto
  have con_in: "constructed_in con (calls w3)"
  proof -
    from ws have ne: "calls w2 \<noteq> []"
      and la: "last (calls w2) = Call c ([pub, dl, eng] @ given_args (consumer (service self)))
               (given_kwargs (consumer (service self)))"
      and co: "con = OInst c ([pub, dl, eng] @ given_args (consumer (service self)))
               (given_kwargs (consumer (service self)))"
      by blast+
    from last_in_set [OF ne] la
    have "Call c ([pub, dl, eng] @ given_args (consumer (service self)))
               (given_kwargs (consumer (service self))) \<in> set (calls w2)" by simp
    with sub have "Call c ([pub, dl, eng] @ given_args (consumer (service self)))
               (given_kwargs (consumer (service self))) \<in> set (calls w3)" by (rule subsetD)
    then show ?thesis by (simp add: co)
  qed
  have eng_in: "constructed_in eng (calls w3)"
  proof -
    from ws have "constructed_in eng (calls w2)" by blast
    with sub show ?thesis by (cases eng) (simp_all add: subset_iff)
  qed
  have pub_in: "constructed_in pub (calls w3)"
  proof -
    from ws have "constructed_in pub (calls w2)" by blast
    with sub show ?thesis by (cases pub) (simp_all add: subset_iff)
  qed
  have ws_in: "list_all (\<lambda>x. constructed_in x (calls w3)) ws'"
  proof -
    have "constructed_in x (calls w3)" if "constructed_in x (calls we)" for x
      using that sub' by (cases x) (simp_all add: subset_iff)
    with g show ?thesis by (simp add: list_all_iff)
  qed
  have fw: "filter is_Watch (calls w3) =
        filter is_Watch (calls w) @ concat (map (watch_events d eng con) ws')"
  proof -
    have "filter is_Watch (concat (map (watch_events d eng con) ws')) =
        concat (map (watch_events d eng con) ws')"
      by (induction ws') (simp_all add: watch_events_def)
    moreover have "filter is_Watch (calls (configured d self w1)) = filter is_Watch (calls w)"
      using load_plugins_InrD [OF l] by (simp add: configured_def)
    moreover from g have "filter is_Watch (calls we) = filter is_Watch (calls w2)" by blast
    ultimately show ?thesis using f8 w3 by simp
  qed
  show ?thesis
    apply (rule exI [of _ pub], rule exI [of _ dl], rule exI [of _ fmt], rule exI [of _ eng],
        rule exI [of _ c], rule exI [of _ ws'])
    apply (intro conjI)
               apply (fact f1)
              apply (fact f2)
             apply (fact con_in)
            apply (fact eng_in)
           apply (fact f3)
          apply (fact pub_in)
         apply (fact f4)
        apply (fact f5)
       apply (fact f6)
      apply (fact g1)
     apply (fact ws_in)
    apply (fact fw)
    done
qed

section \<open>How the components are constructed\<close>

text \<open>
  C6. The generic loader \<open>load\<close> (the downloader and every watcher; the publisher's code
  is the same) calls the component its name resolves to with the spec's \<^verbatim>\<open>args\<close> as the
  positional arguments, in their order, and the spec's \<^verbatim>\<open>kwargs\<close> as the keyword
  arguments, each defaulting to empty. The consumer is called with publisher, downloader
  and engine as the first three positional arguments, followed by the spec's \<^verbatim>\<open>args\<close>,
  also when the slot is absent (\<open>Interactive\<close>, no further arguments). In every build
  that returns, the consumer returned has this shape and was constructed by a logged
  call, the publisher and the downloader are built from their specs (or are the
  defaults), and so is each watcher.
\<close>

theorem components_get_args_then_kwargs:
  "load d spec w0 =
     (case get_component d (registry w0) (name spec) of
        None \<Rightarrow> (Inl (not_found (name spec)), w0\<lparr>calls := calls w0 @ [GetComponent (name spec)]\<rparr>)
      | Some c \<Rightarrow>
          (Inr (OInst c (map OVal (dict_get (args spec) []))
                  (map (\<lambda>(k, v). (k, OVal v)) (dict_get (kwargs spec) []))),
           w0\<lparr>calls := calls w0 @ [GetComponent (name spec),
              Call c (map OVal (dict_get (args spec) []))
                (map (\<lambda>(k, v). (k, OVal v)) (dict_get (kwargs spec) []))]\<rparr>))
   \<and> get_consumer d self pub dl eng w0 =
     (case consumer (service self) of
        None \<Rightarrow> (Inr (OInst Interactive [pub, dl, eng] []),
                 w0\<lparr>calls := calls w0 @ [Call Interactive [pub, dl, eng] []]\<rparr>)
      | Some s \<Rightarrow>
          (case get_component d (registry w0) (name s) of
             None \<Rightarrow> (Inl (not_found (name s)), w0\<lparr>calls := calls w0 @ [GetComponent (name s)]\<rparr>)
           | Some c \<Rightarrow>
               (Inr (OInst c ([pub, dl, eng] @ map OVal (dict_get (args s) []))
                       (map (\<lambda>(k, v). (k, OVal v)) (dict_get (kwargs s) []))),
                w0\<lparr>calls := calls w0 @ [GetComponent (name s),
                   Call c ([pub, dl, eng] @ map OVal (dict_get (args s) []))
                     (map (\<lambda>(k, v). (k, OVal v)) (dict_get (kwargs s) []))]\<rparr>)))
   \<and> get_publisher d self =
       (case publisher (service self) of None \<Rightarrow> call StdOut [] [] | Some s \<Rightarrow> load d s)
   \<and> get_downloader d self =
       (case downloader (service self) of None \<Rightarrow> returnE (OClass LocalFS) | Some s \<Rightarrow> load d s)
   \<and> get_watchers d self = load_each d (dict_get (watchers (service self)) [])
   \<and> (build_app d self w = (Inr con, w3) \<longrightarrow>
        (\<exists>c pub' dl' eng' ws.
            con = OInst c ([pub', dl', eng'] @ given_args (consumer (service self)))
                    (given_kwargs (consumer (service self)))
          \<and> constructed_in con (calls w3)
          \<and> slot_built d (resolving_registry d self w) (publisher (service self))
                (OInst StdOut [] []) pub'
          \<and> slot_built d (resolving_registry d self w) (downloader (service self))
                (OClass LocalFS) dl'
          \<and> list_all2 (built_from d (resolving_registry d self w))
                (dict_get (watchers (service self)) []) ws
          \<and> list_all (\<lambda>x. constructed_in x (calls w3)) ws))"
proof (intro conjI impI)
  show "load d spec w0 =
     (case get_component d (registry w0) (name spec) of
        None \<Rightarrow> (Inl (not_found (name spec)), w0\<lparr>calls := calls w0 @ [GetComponent (name spec)]\<rparr>)
      | Some c \<Rightarrow>
          (Inr (OInst c (positional_args spec) (keyword_args spec)),
           w0\<lparr>calls := calls w0 @ [GetComponent (name spec),
              Call c (positional_args spec) (keyword_args spec)]\<rparr>))"
    by (cases "get_component d (registry w0) (name spec)") (simp_all add: load_found load_missing)
next
  show "get_consumer d self pub dl eng w0 =
     (case consumer (service self) of
        None \<Rightarrow> (Inr (OInst Interactive [pub, dl, eng] []),
                 w0\<lparr>calls := calls w0 @ [Call Interactive [pub, dl, eng] []]\<rparr>)
      | Some s \<Rightarrow>
          (case get_component d (registry w0) (name s) of
             None \<Rightarrow> (Inl (not_found (name s)), w0\<lparr>calls := calls w0 @ [GetComponent (name s)]\<rparr>)
           | Some c \<Rightarrow>
               (Inr (OInst c ([pub, dl, eng] @ positional_args s) (keyword_args s)),
                w0\<lparr>calls := calls w0 @ [GetComponent (name s),
                   Call c ([pub, dl, eng] @ positional_args s) (keyword_args s)]\<rparr>)))"
  proof (cases "consumer (service self)")
    case None
    then show ?thesis by (simp add: get_consumer_default)
  next
    case (Some s)
    then show ?thesis
      by (cases "get_component d (registry w0) (name s)")
         (simp_all add: get_consumer_found get_consumer_missing)
  qed
next
  show "get_publisher d self =
       (case publisher (service self) of None \<Rightarrow> call StdOut [] [] | Some s \<Rightarrow> load d s)"
    by (simp add: get_publisher_def load_def split: option.splits)
next
  show "get_downloader d self =
       (case downloader (service self) of None \<Rightarrow> returnE (OClass LocalFS) | Some s \<Rightarrow> load d s)"
    by (simp add: get_downloader_def)
next
  show "get_watchers d self = load_each d (dict_get (watchers (service self)) [])"
    by (simp add: get_watchers_def dict_get_def split: option.splits)
next
  assume "build_app d self w = (Inr con, w3)"
  from build_app_success [OF this] show "\<exists>c pub' dl' eng' ws.
            con = OInst c ([pub', dl', eng'] @ given_args (consumer (service self)))
                    (given_kwargs (consumer (service self)))
          \<and> constructed_in con (calls w3)
          \<and> slot_built d (resolving_registry d self w) (publisher (service self))
                (OInst StdOut [] []) pub'
          \<and> slot_built d (resolving_registry d self w) (downloader (service self))
                (OClass LocalFS) dl'
          \<and> list_all2 (built_from d (resolving_registry d self w))
                (dict_get (watchers (service self)) []) ws
          \<and> list_all (\<lambda>x. constructed_in x (calls w3)) ws"
    by blast
qed

theorem components_get_args_then_kwargs_witness:
  "fst (build_app ex_dr ex_custom ex_world) =
     Inr (OInst (Component ''Cons'')
           [OInst (Component ''Pub'') [OVal (VInt 1)] [(''k'', OVal (VStr ''v''))],
            OClass LocalFS, ex_engine, OVal (VStr ''x'')] [])
   \<and> (\<exists>c pub' dl' eng' ws.
          OInst (Component ''Cons'')
           [OInst (Component ''Pub'') [OVal (VInt 1)] [(''k'', OVal (VStr ''v''))],
            OClass LocalFS, ex_engine, OVal (VStr ''x'')] []
          = OInst c ([pub', dl', eng'] @ given_args (consumer (service ex_custom)))
              (given_kwargs (consumer (service ex_custom)))
        \<and> constructed_in
            (OInst (Component ''Cons'')
              [OInst (Component ''Pub'') [OVal (VInt 1)] [(''k'', OVal (VStr ''v''))],
               OClass LocalFS, ex_engine, OVal (VStr ''x'')] [])
            (calls (snd (build_app ex_dr ex_custom ex_world)))
        \<and> slot_built ex_dr (resolving_registry ex_dr ex_custom ex_world)
            (publisher (service ex_custom)) (OInst StdOut [] []) pub'
        \<and> slot_built ex_dr (resolving_registry ex_dr ex_custom ex_world)
            (downloader (service ex_custom)) (OClass LocalFS) dl'
        \<and> list_all2 (built_from ex_dr (resolving_registry ex_dr ex_custom ex_world))
            (dict_get (watchers (service ex_custom)) []) ws
        \<and> list_all (\<lambda>x. constructed_in x (calls (snd (build_app ex_dr ex_custom ex_world)))) ws)"
proof -
  have f: "fst (build_app ex_dr ex_custom ex_world) =
     Inr (OInst (Component ''Cons'')
           [OInst (Component ''Pub'') [OVal (VInt 1)] [(''k'', OVal (VStr ''v''))],
            OClass LocalFS, ex_engine, OVal (VStr ''x'')] [])"
    by (simp add: run_more)
  note h = run_to [OF f]
  from f components_get_args_then_kwargs [THEN conjunct2, THEN conjunct2, THEN conjunct2,
      THEN conjunct2, THEN conjunct2, rule_format, OF h]
  show ?thesis by (rule conjI)
qed

lemma wire_defaults:
  assumes "publisher (service self) = None" and "downloader (service self) = None"
    and "format (service self) = None" and "consumer (service self) = None"
  shows "wire d self tc w0 =
     (Inr (OInst Engine [graph_obj tc, OClass HumanReadableFormat] [],
           OInst Interactive [OInst StdOut [] [], OClass LocalFS,
             OInst Engine [graph_obj tc, OClass HumanReadableFormat] []] []),
      w0\<lparr>calls := calls w0 @
        [Call StdOut [] [],
         Call Engine [graph_obj tc, OClass HumanReadableFormat] [],
         Call Interactive [OInst StdOut [] [], OClass LocalFS,
           OInst Engine [graph_obj tc, OClass HumanReadableFormat] []] []]\<rparr>)"
  using assms
  by (simp add: wire_def bindE_def get_publisher_default get_downloader_default
      get_format_default get_consumer_default call_def returnE_def)

lemma attach_no_watchers:
  "watchers (service self) = None \<Longrightarrow> attach_watchers d self eng con w0 = (Inr con, w0)"
  by (simp add: attach_watchers_def get_watchers_def bindE_def returnE_def)

text \<open>
  C7. When \<^verbatim>\<open>service.publisher\<close> is absent the publisher is \<^verbatim>\<open>StdOut()\<close>; when
  \<^verbatim>\<open>service.downloader\<close> is absent the downloader is the class \<open>LocalFS\<close>; when
  \<^verbatim>\<open>service.format\<close> is absent the format is \<open>HumanReadableFormat\<close>; when
  \<^verbatim>\<open>service.consumer\<close> is absent the consumer is \<^verbatim>\<open>Interactive(publisher, downloader,
  engine)\<close>. In each case the step logs no \<open>GetComponent\<close>: the registry is not asked.
  A build that returns has used these values in the consumer it returns, and the build
  of a manifest that omits all four (and has no watchers) makes no lookup at all.
\<close>

theorem omitted_slots_take_the_defaults:
  "(publisher (service self) = None \<longrightarrow>
      get_publisher d self w0 =
        (Inr (OInst StdOut [] []), w0\<lparr>calls := calls w0 @ [Call StdOut [] []]\<rparr>))
   \<and> (downloader (service self) = None \<longrightarrow>
      get_downloader d self w0 = (Inr (OClass LocalFS), w0))
   \<and> (format (service self) = None \<longrightarrow>
      get_format d self w0 = (Inr (OClass HumanReadableFormat), w0))
   \<and> (consumer (service self) = None \<longrightarrow>
      get_consumer d self pub dl eng w0 =
        (Inr (OInst Interactive [pub, dl, eng] []),
         w0\<lparr>calls := calls w0 @ [Call Interactive [pub, dl, eng] []]\<rparr>))
   \<and> (build_app d self w = (Inr con, w3) \<longrightarrow>
        (\<exists>c pub' dl' fmt' as kws.
            con = OInst c ([pub', dl',
                    OInst Engine [graph_obj (get_target_components d self
                      (resolving_registry d self w)), fmt'] []] @ as) kws
          \<and> (publisher (service self) = None \<longrightarrow> pub' = OInst StdOut [] [])
          \<and> (downloader (service self) = None \<longrightarrow> dl' = OClass LocalFS)
          \<and> (format (service self) = None \<longrightarrow> fmt' = OClass HumanReadableFormat)
          \<and> (consumer (service self) = None \<longrightarrow> c = Interactive \<and> as = [] \<and> kws = [])))
   \<and> (publisher (service self) = None \<and> downloader (service self) = None
        \<and> format (service self) = None \<and> consumer (service self) = None
        \<and> watchers (service self) = None \<and> load_plugins d self w = (Inr (), w1) \<longrightarrow>
        build_app d self w =
          (Inr (OInst Interactive [OInst StdOut [] [], OClass LocalFS,
                  OInst Engine [graph_obj (get_target_components d self
                    (resolving_registry d self w)), OClass HumanReadableFormat] []] []),
           (configured d self w1)\<lparr>calls := calls (configured d self w1) @
             [Call StdOut [] [],
              Call Engine [graph_obj (get_target_components d self
                (resolving_registry d self w)), OClass HumanReadableFormat] [],
              Call Interactive [OInst StdOut [] [], OClass LocalFS,
                OInst Engine [graph_obj (get_target_components d self
                  (resolving_registry d self w)), OClass HumanReadableFormat] []] []]\<rparr>))"
proof (intro conjI impI)
  assume "build_app d self w = (Inr con, w3)"
  from build_app_success [OF this] obtain pub' dl' fmt' eng' c where
    e: "eng' = OInst Engine [graph_obj (get_target_components d self (resolving_registry d self w)), fmt'] []"
    and c: "con = OInst c ([pub', dl', eng'] @ given_args (consumer (service self)))
               (given_kwargs (consumer (service self)))"
    and p: "slot_built d (resolving_registry d self w) (publisher (service self)) (OInst StdOut [] []) pub'"
    and dl: "slot_built d (resolving_registry d self w) (downloader (service self)) (OClass LocalFS) dl'"
    and f: "case format (service self) of
          None \<Rightarrow> fmt' = OClass HumanReadableFormat
        | Some n \<Rightarrow> (\<exists>cf. get_component d (resolving_registry d self w) n = Some cf \<and> fmt' = OClass cf)"
    and k: "case consumer (service self) of
          None \<Rightarrow> c = Interactive
        | Some spec \<Rightarrow> get_component d (resolving_registry d self w) (name spec) = Some c"
    by blast
  show "\<exists>c pub' dl' fmt' as kws.
            con = OInst c ([pub', dl',
                    OInst Engine [graph_obj (get_target_components d self
                      (resolving_registry d self w)), fmt'] []] @ as) kws
          \<and> (publisher (service self) = None \<longrightarrow> pub' = OInst StdOut [] [])
          \<and> (downloader (service self) = None \<longrightarrow> dl' = OClass LocalFS)
          \<and> (format (service self) = None \<longrightarrow> fmt' = OClass HumanReadableFormat)
          \<and> (consumer (service self) = None \<longrightarrow> c = Interactive \<and> as = [] \<and> kws = [])"
    apply (rule exI [of _ c], rule exI [of _ pub'], rule exI [of _ dl'], rule exI [of _ fmt'],
        rule exI [of _ "given_args (consumer (service self))"],
        rule exI [of _ "given_kwargs (consumer (service self))"])
    using e c p dl f k
    apply (auto simp: slot_built_def given_args_def given_kwargs_def split: option.splits)
    done
next
  assume a: "publisher (service self) = None \<and> downloader (service self) = None
        \<and> format (service self) = None \<and> consumer (service self) = None
        \<and> watchers (service self) = None \<and> load_plugins d self w = (Inr (), w1)"
  then have r: "registry (configured d self w1) = resolving_registry d self w"
    by (simp add: resolving_registry_def)
  from a show "build_app d self w =
          (Inr (OInst Interactive [OInst StdOut [] [], OClass LocalFS,
                  OInst Engine [graph_obj (get_target_components d self
                    (resolving_registry d self w)), OClass HumanReadableFormat] []] []),
           (configured d self w1)\<lparr>calls := calls (configured d self w1) @
             [Call StdOut [] [],
              Call Engine [graph_obj (get_target_components d self
                (resolving_registry d self w)), OClass HumanReadableFormat] [],
              Call Interactive [OInst StdOut [] [], OClass LocalFS,
                OInst Engine [graph_obj (get_target_components d self
                  (resolving_registry d self w)), OClass HumanReadableFormat] []] []]\<rparr>)"
    by (simp add: build_app_phases r wire_defaults bindE_def attach_no_watchers)
qed (simp_all add: get_publisher_default get_downloader_default get_format_default
      get_consumer_default)

theorem omitted_slots_take_the_defaults_witness:
  "publisher (service ex_plain) = None \<and> downloader (service ex_plain) = None
   \<and> format (service ex_plain) = None \<and> consumer (service ex_plain) = None
   \<and> watchers (service ex_plain) = None
   \<and> load_plugins ex_dr ex_plain ex_world = (Inr (), ex_world)
   \<and> build_app ex_dr ex_plain ex_world =
       (Inr (OInst Interactive [OInst StdOut [] [], OClass LocalFS, ex_engine] []),
        \<lparr>registry = [],
         calls = ex_applied @
           [Call StdOut [] [],
            Call Engine [ONone, OClass HumanReadableFormat] [],
            Call Interactive [OInst StdOut [] [], OClass LocalFS, ex_engine] []]\<rparr>)"
proof -
  have h: "publisher (service ex_plain) = None \<and> downloader (service ex_plain) = None
        \<and> format (service ex_plain) = None \<and> consumer (service ex_plain) = None
        \<and> watchers (service ex_plain) = None
        \<and> load_plugins ex_dr ex_plain ex_world = (Inr (), ex_world)"
    by (simp add: run_more)
  from omitted_slots_take_the_defaults [of ex_plain ex_dr, THEN conjunct2, THEN conjunct2,
      THEN conjunct2, THEN conjunct2, THEN conjunct2, rule_format, OF h] h
  show ?thesis by (simp add: run_more)
qed

text \<open>
  C9. With \<^verbatim>\<open>service.downloader\<close> absent the downloader is the class \<open>LocalFS\<close> itself
  and nothing is called for it (the world is unchanged); with \<^verbatim>\<open>service.publisher\<close>
  absent the publisher is the instance made by the logged call \<^verbatim>\<open>StdOut()\<close>. The
  consumer of a build that returns was called with the publisher first and the
  downloader second: the uninstantiated class when the downloader is absent, the
  instance of \<open>StdOut\<close> when the publisher is.
\<close>

theorem default_downloader_stays_a_class:
  "(downloader (service self) = None \<longrightarrow>
      get_downloader d self w0 = (Inr (OClass LocalFS), w0))
   \<and> (publisher (service self) = None \<longrightarrow>
      get_publisher d self w0 =
        (Inr (OInst StdOut [] []), w0\<lparr>calls := calls w0 @ [Call StdOut [] []]\<rparr>))
   \<and> (build_app d self w = (Inr con, w3) \<longrightarrow>
        (\<exists>c pub' dl' eng' as kws.
            con = OInst c ([pub', dl', eng'] @ as) kws
          \<and> Call c ([pub', dl', eng'] @ as) kws \<in> set (calls w3)
          \<and> (downloader (service self) = None \<longrightarrow> dl' = OClass LocalFS)
          \<and> (publisher (service self) = None \<longrightarrow>
                pub' = OInst StdOut [] [] \<and> Call StdOut [] [] \<in> set (calls w3))))"
proof (intro conjI impI)
  assume b: "build_app d self w = (Inr con, w3)"
  from build_app_success [OF b] obtain pub' dl' eng' c where
    c: "con = OInst c ([pub', dl', eng'] @ given_args (consumer (service self)))
               (given_kwargs (consumer (service self)))"
    and ci: "constructed_in con (calls w3)"
    and p: "slot_built d (resolving_registry d self w) (publisher (service self)) (OInst StdOut [] []) pub'"
    and pi: "constructed_in pub' (calls w3)"
    and dl: "slot_built d (resolving_registry d self w) (downloader (service self)) (OClass LocalFS) dl'"
    by blast
  show "\<exists>c pub' dl' eng' as kws.
            con = OInst c ([pub', dl', eng'] @ as) kws
          \<and> Call c ([pub', dl', eng'] @ as) kws \<in> set (calls w3)
          \<and> (downloader (service self) = None \<longrightarrow> dl' = OClass LocalFS)
          \<and> (publisher (service self) = None \<longrightarrow>
                pub' = OInst StdOut [] [] \<and> Call StdOut [] [] \<in> set (calls w3))"
    apply (rule exI [of _ c], rule exI [of _ pub'], rule exI [of _ dl'], rule exI [of _ eng'],
        rule exI [of _ "given_args (consumer (service self))"],
        rule exI [of _ "given_kwargs (consumer (service self))"])
    using c ci pi p dl
    apply (auto simp: slot_built_def)
    done
qed (simp_all add: get_publisher_default get_downloader_default)

theorem default_downloader_stays_a_class_witness:
  "downloader (service ex_plain) = None \<and> publisher (service ex_plain) = None
   \<and> get_downloader ex_dr ex_plain ex_world = (Inr (OClass LocalFS), ex_world)
   \<and> get_publisher ex_dr ex_plain ex_world =
       (Inr (OInst StdOut [] []), \<lparr>registry = [], calls = [Call StdOut [] []]\<rparr>)
   \<and> fst (build_app ex_dr ex_plain ex_world) =
       Inr (OInst Interactive [OInst StdOut [] [], OClass LocalFS, ex_engine] [])
   \<and> (\<exists>c pub' dl' eng' as kws.
          OInst Interactive [OInst StdOut [] [], OClass LocalFS, ex_engine] []
            = OInst c ([pub', dl', eng'] @ as) kws
        \<and> Call c ([pub', dl', eng'] @ as) kws
            \<in> set (calls (snd (build_app ex_dr ex_plain ex_world)))
        \<and> (downloader (service ex_plain) = None \<longrightarrow> dl' = OClass LocalFS)
        \<and> (publisher (service ex_plain) = None \<longrightarrow>
              pub' = OInst StdOut [] []
            \<and> Call StdOut [] [] \<in> set (calls (snd (build_app ex_dr ex_plain ex_world)))))"
proof -
  have f: "fst (build_app ex_dr ex_plain ex_world) =
       Inr (OInst Interactive [OInst StdOut [] [], OClass LocalFS, ex_engine] [])"
    by (simp add: run_more)
  have n1: "downloader (service ex_plain) = None" and n2: "publisher (service ex_plain) = None"
    by (simp_all add: run_more)
  note t = default_downloader_stays_a_class [of ex_plain ex_dr ex_world]
  from t [THEN conjunct1, rule_format, OF n1]
  have g1: "get_downloader ex_dr ex_plain ex_world = (Inr (OClass LocalFS), ex_world)" .
  from t [THEN conjunct2, THEN conjunct1, rule_format, OF n2]
  have g2: "get_publisher ex_dr ex_plain ex_world =
       (Inr (OInst StdOut [] []), \<lparr>registry = [], calls = [Call StdOut [] []]\<rparr>)"
    by (simp add: ex_world_def)
  note g3 = t [THEN conjunct2, THEN conjunct2, rule_format, OF run_to [OF f]]
  from n1 n2 g1 g2 f g3 show ?thesis by (intro conjI)
qed

section \<open>Attaching the watchers\<close>

text \<open>
  C8. The loop over the watchers that \<^verbatim>\<open>_get_watchers\<close> returned calls, for each watcher
  in turn, \<^verbatim>\<open>watch(engine)\<close> exactly when it is an \<open>EngineWatcher\<close> and then
  \<^verbatim>\<open>watch(consumer)\<close> exactly when it is a \<open>ConsumerWatcher\<close>; the two tests do not depend
  on each other, so a watcher gets both calls, one or none. The \<^verbatim>\<open>watch\<close> calls of a
  build that returns are exactly these, for the watchers built from the specs of
  \<^verbatim>\<open>service.watchers\<close>, with the engine that was handed to the consumer.
\<close>

theorem watchers_attached_by_capability:
  "watch_each d ws eng con w0 =
     (Inr (), w0\<lparr>calls := calls w0 @ concat (map (watch_events d eng con) ws)\<rparr>)
   \<and> (eng \<noteq> con \<longrightarrow>
        (Watch x eng \<in> set (watch_events d eng con x) \<longleftrightarrow> is_EngineWatcher d x)
      \<and> (Watch x con \<in> set (watch_events d eng con x) \<longleftrightarrow> is_ConsumerWatcher d x))
   \<and> (build_app d self w = (Inr con', w3) \<longrightarrow>
        (\<exists>c pub' dl' eng' ws'.
            con' = OInst c ([pub', dl', eng'] @ given_args (consumer (service self)))
                     (given_kwargs (consumer (service self)))
          \<and> eng' \<noteq> con'
          \<and> list_all2 (built_from d (resolving_registry d self w))
                (dict_get (watchers (service self)) []) ws'
          \<and> filter is_Watch (calls w3) =
              filter is_Watch (calls w) @ concat (map (watch_events d eng' con') ws')))"
proof (intro conjI impI)
  show "watch_each d ws eng con w0 =
     (Inr (), w0\<lparr>calls := calls w0 @ concat (map (watch_events d eng con) ws)\<rparr>)"
    by (rule watch_each_run)
next
  assume "eng \<noteq> con"
  then show "Watch x eng \<in> set (watch_events d eng con x) \<longleftrightarrow> is_EngineWatcher d x"
    by (auto simp: watch_events_def)
next
  assume "eng \<noteq> con"
  then show "Watch x con \<in> set (watch_events d eng con x) \<longleftrightarrow> is_ConsumerWatcher d x"
    by (auto simp: watch_events_def)
next
  assume "build_app d self w = (Inr con', w3)"
  from build_app_success [OF this] obtain pub' dl' eng' c ws' where
    c: "con' = OInst c ([pub', dl', eng'] @ given_args (consumer (service self)))
               (given_kwargs (consumer (service self)))"
    and l: "list_all2 (built_from d (resolving_registry d self w))
                (dict_get (watchers (service self)) []) ws'"
    and f: "filter is_Watch (calls w3) =
              filter is_Watch (calls w) @ concat (map (watch_events d eng' con') ws')"
    by blast
  have "eng' \<noteq> con'" unfolding c by (rule obj_not_own_argument) simp
  with c l f show "\<exists>c pub' dl' eng' ws'.
            con' = OInst c ([pub', dl', eng'] @ given_args (consumer (service self)))
                     (given_kwargs (consumer (service self)))
          \<and> eng' \<noteq> con'
          \<and> list_all2 (built_from d (resolving_registry d self w))
                (dict_get (watchers (service self)) []) ws'
          \<and> filter is_Watch (calls w3) =
              filter is_Watch (calls w) @ concat (map (watch_events d eng' con') ws')"
    by blast
qed

theorem watchers_attached_by_capability_witness:
  "fst (build_app ex_dr ex_watched ex_world) =
       Inr (OInst Interactive [OInst StdOut [] [], OClass LocalFS, ex_engine] [])
   \<and> filter is_Watch (calls (snd (build_app ex_dr ex_watched ex_world))) =
       [Watch (OInst (Component ''EngineOnly'') [] []) ex_engine,
        Watch (OInst (Component ''ConsumerOnly'') [] [])
          (OInst Interactive [OInst StdOut [] [], OClass LocalFS, ex_engine] []),
        Watch (OInst (Component ''Both'') [] []) ex_engine,
        Watch (OInst (Component ''Both'') [] [])
          (OInst Interactive [OInst StdOut [] [], OClass LocalFS, ex_engine] [])]
   \<and> (\<exists>c pub' dl' eng' ws'.
          OInst Interactive [OInst StdOut [] [], OClass LocalFS, ex_engine] []
            = OInst c ([pub', dl', eng'] @ given_args (consumer (service ex_watched)))
                (given_kwargs (consumer (service ex_watched)))
        \<and> eng' \<noteq> OInst Interactive [OInst StdOut [] [], OClass LocalFS, ex_engine] []
        \<and> list_all2 (built_from ex_dr (resolving_registry ex_dr ex_watched ex_world))
            (dict_get (watchers (service ex_watched)) []) ws'
        \<and> filter is_Watch (calls (snd (build_app ex_dr ex_watched ex_world))) =
            filter is_Watch (calls ex_world) @
            concat (map (watch_events ex_dr eng'
              (OInst Interactive [OInst StdOut [] [], OClass LocalFS, ex_engine] [])) ws'))
   \<and> ex_engine \<noteq> OInst Interactive [OInst StdOut [] [], OClass LocalFS, ex_engine] []
   \<and> is_EngineWatcher ex_dr (OInst (Component ''EngineOnly'') [] [])
   \<and> \<not> is_ConsumerWatcher ex_dr (OInst (Component ''EngineOnly'') [] [])
   \<and> Watch (OInst (Component ''EngineOnly'') [] []) ex_engine
        \<in> set (watch_events ex_dr ex_engine
              (OInst Interactive [OInst StdOut [] [], OClass LocalFS, ex_engine] [])
              (OInst (Component ''EngineOnly'') [] []))
   \<and> Watch (OInst (Component ''EngineOnly'') [] [])
          (OInst Interactive [OInst StdOut [] [], OClass LocalFS, ex_engine] [])
        \<notin> set (watch_events ex_dr ex_engine
              (OInst Interactive [OInst StdOut [] [], OClass LocalFS, ex_engine] [])
              (OInst (Component ''EngineOnly'') [] []))"
proof -
  let ?con = "OInst Interactive [OInst StdOut [] [], OClass LocalFS, ex_engine] []"
  let ?x = "OInst (Component ''EngineOnly'') [] []"
  have f: "fst (build_app ex_dr ex_watched ex_world) = Inr ?con"
    by (simp add: run_more)
  have g: "filter is_Watch (calls (snd (build_app ex_dr ex_watched ex_world))) =
       [Watch (OInst (Component ''EngineOnly'') [] []) ex_engine,
        Watch (OInst (Component ''ConsumerOnly'') [] []) ?con,
        Watch (OInst (Component ''Both'') [] []) ex_engine,
        Watch (OInst (Component ''Both'') [] []) ?con]"
    by (simp add: run_more)
  note h = run_to [OF f]
  note t = watchers_attached_by_capability [THEN conjunct2, THEN conjunct2, rule_format, OF h]
  have ne: "ex_engine \<noteq> ?con" by (simp add: ex_engine_def)
  have e: "is_EngineWatcher ex_dr ?x" and c: "\<not> is_ConsumerWatcher ex_dr ?x"
    by (simp_all add: ex_defs)
  note u = watchers_attached_by_capability [THEN conjunct2, THEN conjunct1, rule_format, OF ne,
      of ?x ex_dr]
  from u e have m1: "Watch ?x ex_engine \<in> set (watch_events ex_dr ex_engine ?con ?x)" by blast
  from u c have m2: "Watch ?x ?con \<notin> set (watch_events ex_dr ex_engine ?con ?x)" by blast
  from f g t ne e c m1 m2 show ?thesis by (intro conjI)
qed

section \<open>Names that do not resolve\<close>

lemma load_each_log:
  "prefix (calls w) (calls (snd (load_each d ws w)))
   \<and> filter is_Watch (calls (snd (load_each d ws w))) = filter is_Watch (calls w)"
proof (induction ws arbitrary: w)
  case Nil
  show ?case by (simp add: returnE_def)
next
  case (Cons s ws)
  show ?case
  proof (cases "get_component d (registry w) (name s)")
    case None
    then show ?thesis by (simp add: bindE_def load_missing)
  next
    case (Some c)
    let ?wa = "w\<lparr>calls := calls w @ [GetComponent (name s), Call c (positional_args s) (keyword_args s)]\<rparr>"
    obtain res w1 where r: "load_each d ws ?wa = (res, w1)" by (cases "load_each d ws ?wa")
    from Cons.IH [of ?wa] r have ih: "prefix (calls ?wa) (calls w1)"
      "filter is_Watch (calls w1) = filter is_Watch (calls ?wa)" by simp_all
    from ih(1) have "prefix (calls w) (calls w1)" by (auto dest: append_prefixD)
    moreover from ih(2) have "filter is_Watch (calls w1) = filter is_Watch (calls w)" by simp
    moreover have "snd (load_each d (s # ws) w) = w1"
      using Some r by (cases res) (simp_all add: bindE_def load_found returnE_def)
    ultimately show ?thesis by simp
  qed
qed

lemma load_each_InlD:
  "load_each d ws w = (Inl e, w1) \<Longrightarrow>
     \<exists>m. e = not_found m \<and> calls w1 \<noteq> [] \<and> last (calls w1) = GetComponent m"
proof (induction ws arbitrary: w)
  case Nil
  then show ?case by (simp add: returnE_def)
next
  case (Cons s ws)
  show ?case
  proof (cases "get_component d (registry w) (name s)")
    case None
    with Cons.prems show ?thesis by (auto simp: bindE_def load_missing)
  next
    case (Some c)
    let ?wa = "w\<lparr>calls := calls w @ [GetComponent (name s), Call c (positional_args s) (keyword_args s)]\<rparr>"
    from Cons.prems Some have "load_each d ws ?wa = (Inl e, w1)"
      by (auto simp: bindE_def load_found returnE_def split: prod.splits sum.splits)
    then show ?thesis by (rule Cons.IH)
  qed
qed

lemma get_watchers_InlD:
  assumes "get_watchers d self w = (Inl e, w1)"
  shows "prefix (calls w) (calls w1) \<and> filter is_Watch (calls w1) = filter is_Watch (calls w)
       \<and> calls w1 \<noteq> [] \<and> (\<exists>m. e = not_found m \<and> last (calls w1) = GetComponent m)"
proof (cases "watchers (service self)")
  case None
  with assms show ?thesis by (simp add: get_watchers_def returnE_def)
next
  case (Some ws)
  with assms have l: "load_each d ws w = (Inl e, w1)" by (simp add: get_watchers_def)
  from load_each_log [of w d ws] l load_each_InlD [OF l] show ?thesis by auto
qed

text \<open>
  C5, as amended. When the plugin packages have loaded and \<open>n\<close> is the first name, in the
  order publisher, downloader, format, consumer, watchers, that does not resolve in the
  registry, \<open>build_app\<close> raises the exception with the message \<^verbatim>\<open>Couldn't find n.\<close>,
  which contains \<open>n\<close>.
\<close>

theorem first_unresolved_name_is_reported:
  assumes "load_plugins d self w = (Inr (), w1)"
    and "find (\<lambda>n. get_component d (registry (configured d self w1)) n = None)
           (lookup_order self) = Some n"
  shows "fst (build_app d self w) = Inl (not_found n)
       \<and> message (not_found n) = ''Couldn't find '' @ n @ ''.''
       \<and> sublist n (message (not_found n))"
proof -
  have "sublist n (''Couldn't find '' @ n @ ''.'')"
    by (rule sublist_appendI)
  with build_app_first_unresolved [OF assms] show ?thesis
    by (simp add: not_found_def)
qed

theorem first_unresolved_name_is_reported_witness:
  "load_plugins ex_dr ex_two_missing ex_world =
     (Inr (), \<lparr>registry = [Component ''pkg.a.x'', Component ''pkg.a.y''],
                calls = [LoadComponents ''pkg.a'' False]\<rparr>)
   \<and> lookup_order ex_two_missing = [''app.Pub'', ''app.NoFmt'', ''app.NoCons'']
   \<and> find (\<lambda>n. get_component ex_dr [Component ''pkg.a.x'', Component ''pkg.a.y''] n = None)
        (lookup_order ex_two_missing) = Some ''app.NoFmt''
   \<and> fst (build_app ex_dr ex_two_missing ex_world) = Inl (Exception ''Couldn't find app.NoFmt.'')
   \<and> sublist ''app.NoFmt'' ''Couldn't find app.NoFmt.''"
proof -
  let ?w1 = "\<lparr>registry = [Component ''pkg.a.x'', Component ''pkg.a.y''],
                calls = [LoadComponents ''pkg.a'' False]\<rparr>"
  have h1: "load_plugins ex_dr ex_two_missing ex_world = (Inr (), ?w1)"
    by (simp add: run_more)
  have r: "registry (configured ex_dr ex_two_missing ?w1) = [Component ''pkg.a.x'', Component ''pkg.a.y'']"
    by (simp add: run_more)
  have l: "lookup_order ex_two_missing = [''app.Pub'', ''app.NoFmt'', ''app.NoCons'']"
    by (simp add: run_more)
  have h2: "find (\<lambda>n. get_component ex_dr (registry (configured ex_dr ex_two_missing ?w1)) n = None)
        (lookup_order ex_two_missing) = Some ''app.NoFmt''"
    unfolding r l by (simp add: ex_defs)
  from first_unresolved_name_is_reported [OF h1 h2] h1 h2 l r
  show ?thesis by (simp add: not_found_def)
qed

text \<open>
  C5 as stated fails when an earlier step raises first. With an unresolvable format and
  an unresolvable consumer the message names the format and not the consumer; and when a
  package fails to load, the failure is the loader's and names no component.
\<close>

theorem unresolved_name_counterexample:
  "consumer (service ex_two_missing) = Some (just ''app.NoCons'')
   \<and> get_component ex_dr (resolving_registry ex_dr ex_two_missing ex_world) ''app.NoCons'' = None
   \<and> fst (build_app ex_dr ex_two_missing ex_world) = Inl (Exception ''Couldn't find app.NoFmt.'')
   \<and> \<not> sublist ''app.NoCons'' ''Couldn't find app.NoFmt.''
   \<and> format (service ex_missing_package) = Some ''app.NoFmt''
   \<and> get_component ex_dr (resolving_registry ex_dr ex_missing_package ex_world) ''app.NoFmt'' = None
   \<and> fst (build_app ex_dr ex_missing_package ex_world) = Inl (Exception ''No module named nope'')
   \<and> \<not> sublist ''app.NoFmt'' ''No module named nope''"
proof -
  have "\<not> sublist ''app.NoCons'' ''Couldn't find app.NoFmt.''" by code_simp
  moreover have "\<not> sublist ''app.NoFmt'' ''No module named nope''" by code_simp
  moreover have "consumer (service ex_two_missing) = Some (just ''app.NoCons'')
   \<and> get_component ex_dr (resolving_registry ex_dr ex_two_missing ex_world) ''app.NoCons'' = None
   \<and> fst (build_app ex_dr ex_two_missing ex_world) = Inl (Exception ''Couldn't find app.NoFmt.'')"
    by (simp add: run_more)
  moreover have "format (service ex_missing_package) = Some ''app.NoFmt''
   \<and> get_component ex_dr (resolving_registry ex_dr ex_missing_package ex_world) ''app.NoFmt'' = None
   \<and> fst (build_app ex_dr ex_missing_package ex_world) = Inl (Exception ''No module named nope'')"
    by (simp add: run_more)
  ultimately show ?thesis by simp
qed

lemma build_app_order:
  "build_app d self w0 =
     (case load_plugins d self w0 of
        (Inl e, w') \<Rightarrow> (Inl e, w')
      | (Inr u, w') \<Rightarrow>
          (case wire d self (get_target_components d self (registry (configured d self w')))
                  (configured d self w') of
             (Inl e, w2) \<Rightarrow> (Inl e, w2)
           | (Inr (eng, con), w2) \<Rightarrow> attach_watchers d self eng con w2))"
  by (simp add: build_app_phases bindE_def split: prod.splits sum.splits)

text \<open>
  C10, as amended. In every run, \<open>build_app\<close> looks the watchers up and constructs them
  (\<open>attach_watchers\<close>) only in the world that the wiring leaves when it has returned the
  engine and the consumer. When the plugin packages have loaded, the names of the
  publisher, the downloader, the format and the consumer all resolve, and \<open>n\<close> is the
  first watcher name that does not, then the wiring has returned an engine and a
  consumer, and \<open>build_app\<close> raises \<^verbatim>\<open>Couldn't find n.\<close> right after the failed
  lookup. At that point the publisher, the engine and the consumer have been
  constructed by logged calls, with publisher, downloader and engine the consumer's first
  arguments; the downloader has been constructed when \<^verbatim>\<open>service.downloader\<close> is given
  and is the class \<open>LocalFS\<close> otherwise. No consumer is returned and no watcher is
  attached.
\<close>

theorem watcher_lookup_fails_after_wiring:
  assumes "load_plugins d self w = (Inr (), w1)"
    and "find (\<lambda>n. get_component d (registry (configured d self w1)) n = None)
           (slot_names self) = None"
    and "find (\<lambda>n. get_component d (registry (configured d self w1)) n = None)
           (watcher_names self) = Some n"
  shows "(\<exists>pub dl eng con w2 w3.
       wire d self (get_target_components d self (registry (configured d self w1)))
         (configured d self w1) = (Inr (eng, con), w2)
     \<and> get_watchers d self w2 = (Inl (not_found n), w3)
     \<and> build_app d self w = (Inl (not_found n), w3)
     \<and> prefix (calls w2) (calls w3)
     \<and> last (calls w3) = GetComponent n
     \<and> filter is_Watch (calls w3) = filter is_Watch (calls w)
     \<and> (\<exists>c. con = OInst c ([pub, dl, eng] @ given_args (consumer (service self)))
                (given_kwargs (consumer (service self))))
     \<and> constructed_in pub (calls w2)
     \<and> constructed_in eng (calls w2)
     \<and> constructed_in con (calls w2)
     \<and> slot_built d (registry (configured d self w1)) (downloader (service self))
          (OClass LocalFS) dl
     \<and> (downloader (service self) = None \<or> constructed_in dl (calls w2)))
   \<and> (\<forall>w0. build_app d self w0 =
         (case load_plugins d self w0 of
            (Inl e, w') \<Rightarrow> (Inl e, w')
          | (Inr u, w') \<Rightarrow>
              (case wire d self (get_target_components d self (registry (configured d self w')))
                      (configured d self w') of
                 (Inl e, w2) \<Rightarrow> (Inl e, w2)
               | (Inr (eng, con), w2) \<Rightarrow> attach_watchers d self eng con w2)))"
proof -
  let ?w = "configured d self w1"
  let ?tc = "get_target_components d self (registry ?w)"
  from resolves_namesD [OF resolves_names_wire, of d self ?tc ?w] assms(2)
  obtain x where "fst (wire d self ?tc ?w) = Inr x" by auto
  then obtain eng con w2 where wi: "wire d self ?tc ?w = (Inr (eng, con), w2)"
    by (cases "wire d self ?tc ?w"; cases x) simp
  from wire_success [OF wi] obtain pub dl fmt c where ws:
    "eng = OInst Engine [graph_obj ?tc, fmt] []
    \<and> con = OInst c ([pub, dl, eng] @ given_args (consumer (service self)))
               (given_kwargs (consumer (service self)))
    \<and> calls w2 \<noteq> []
    \<and> last (calls w2) = Call c ([pub, dl, eng] @ given_args (consumer (service self)))
               (given_kwargs (consumer (service self)))
    \<and> constructed_in eng (calls w2)
    \<and> slot_built d (registry ?w) (publisher (service self)) (OInst StdOut [] []) pub
    \<and> constructed_in pub (calls w2)
    \<and> slot_built d (registry ?w) (downloader (service self)) (OClass LocalFS) dl
    \<and> (downloader (service self) = None \<or> constructed_in dl (calls w2))
    \<and> (case format (service self) of
          None \<Rightarrow> fmt = OClass HumanReadableFormat
        | Some n \<Rightarrow> (\<exists>cf. get_component d (registry ?w) n = Some cf \<and> fmt = OClass cf))
    \<and> (case consumer (service self) of
          None \<Rightarrow> c = Interactive
        | Some spec \<Rightarrow> get_component d (registry ?w) (name spec) = Some c)
    \<and> registry w2 = registry ?w
    \<and> filter is_Watch (calls w2) = filter is_Watch (calls ?w)
    \<and> prefix (calls ?w) (calls w2)"
    by (elim exE) (rule that)
  from ws have f2: "con = OInst c ([pub, dl, eng] @ given_args (consumer (service self)))
               (given_kwargs (consumer (service self)))"
    and ne: "calls w2 \<noteq> []"
    and la: "last (calls w2) = Call c ([pub, dl, eng] @ given_args (consumer (service self)))
               (given_kwargs (consumer (service self)))"
    and e1: "constructed_in eng (calls w2)"
    and e3: "constructed_in pub (calls w2)"
    and e4: "slot_built d (registry ?w) (downloader (service self)) (OClass LocalFS) dl"
    and e5: "downloader (service self) = None \<or> constructed_in dl (calls w2)"
    and r2: "registry w2 = registry ?w"
    and fw: "filter is_Watch (calls w2) = filter is_Watch (calls ?w)"
    by blast+
  have e2: "constructed_in con (calls w2)"
    using last_in_set [OF ne] la by (simp add: f2)
  obtain res w3 where gw: "get_watchers d self w2 = (res, w3)"
    by (cases "get_watchers d self w2")
  from resolves_namesD [OF resolves_names_get_watchers, of d self w2] assms(3) r2 gw
  have res: "res = Inl (not_found n)" by simp
  note gw = gw [unfolded res]
  from get_watchers_InlD [OF gw] have g: "prefix (calls w2) (calls w3)"
    "filter is_Watch (calls w3) = filter is_Watch (calls w2)"
    "last (calls w3) = GetComponent n"
    by (auto simp: not_found_def)
  have b: "build_app d self w = (Inl (not_found n), w3)"
    using assms(1) wi gw
    by (simp add: build_app_phases bindE_Inr [where m = "wire d self ?tc", OF wi]
        attach_watchers_def bindE_Inl [where m = "get_watchers d self", OF gw])
  have fw3: "filter is_Watch (calls w3) = filter is_Watch (calls w)"
    using g(2) fw load_plugins_InrD [OF assms(1)] by (simp add: configured_def)
  have cc: "\<exists>c. con = OInst c ([pub, dl, eng] @ given_args (consumer (service self)))
                (given_kwargs (consumer (service self)))"
    using f2 by blast
  show ?thesis
    apply (rule conjI [OF _ allI [OF build_app_order]])
    apply (rule exI [of _ pub], rule exI [of _ dl], rule exI [of _ eng], rule exI [of _ con],
        rule exI [of _ w2], rule exI [of _ w3])
    apply (intro conjI)
               apply (fact wi)
              apply (fact gw)
             apply (fact b)
            apply (fact g(1))
           apply (fact g(3))
          apply (fact fw3)
         apply (fact cc)
        apply (fact e3)
       apply (fact e1)
      apply (fact e2)
     apply (fact e4)
    apply (fact e5)
    done
qed

theorem watcher_lookup_fails_after_wiring_witness:
  "load_plugins ex_dr ex_missing_watcher ex_world = (Inr (), ex_world)
   \<and> slot_names ex_missing_watcher = [''app.Down'']
   \<and> watcher_names ex_missing_watcher = [''app.Plain'', ''app.NoWatch'']
   \<and> find (\<lambda>n. get_component ex_dr [] n = None) (slot_names ex_missing_watcher) = None
   \<and> find (\<lambda>n. get_component ex_dr [] n = None) (watcher_names ex_missing_watcher)
       = Some ''app.NoWatch''
   \<and> build_app ex_dr ex_missing_watcher ex_world =
       (Inl (Exception ''Couldn't find app.NoWatch.''),
        \<lparr>registry = [],
         calls = ex_applied @
           [Call StdOut [] [],
            GetComponent ''app.Down'', Call (Component ''Down'') [] [],
            Call Engine [ONone, OClass HumanReadableFormat] [],
            Call Interactive [OInst StdOut [] [], OInst (Component ''Down'') [] [], ex_engine] [],
            GetComponent ''app.Plain'', Call (Component ''Plain'') [] [],
            GetComponent ''app.NoWatch'']\<rparr>)"
proof -
  have h1: "load_plugins ex_dr ex_missing_watcher ex_world = (Inr (), ex_world)"
    by (simp add: run_more)
  have r: "registry (configured ex_dr ex_missing_watcher ex_world) = []"
    by (simp add: run_more)
  have s: "slot_names ex_missing_watcher = [''app.Down'']"
    and t: "watcher_names ex_missing_watcher = [''app.Plain'', ''app.NoWatch'']"
    by (simp_all add: run_more)
  have h2: "find (\<lambda>n. get_component ex_dr (registry (configured ex_dr ex_missing_watcher ex_world)) n = None)
        (slot_names ex_missing_watcher) = None"
    unfolding r s by (simp add: ex_defs)
  have h3: "find (\<lambda>n. get_component ex_dr (registry (configured ex_dr ex_missing_watcher ex_world)) n = None)
        (watcher_names ex_missing_watcher) = Some ''app.NoWatch''"
    unfolding r t by (simp add: ex_defs)
  from watcher_lookup_fails_after_wiring [OF h1 h2 h3, THEN conjunct1]
  obtain w3 where "build_app ex_dr ex_missing_watcher ex_world = (Inl (not_found ''app.NoWatch''), w3)"
    by blast
  then have "fst (build_app ex_dr ex_missing_watcher ex_world) = Inl (Exception ''Couldn't find app.NoWatch.'')"
    by (simp add: not_found_def)
  moreover have "snd (build_app ex_dr ex_missing_watcher ex_world) =
        \<lparr>registry = [],
         calls = ex_applied @
           [Call StdOut [] [],
            GetComponent ''app.Down'', Call (Component ''Down'') [] [],
            Call Engine [ONone, OClass HumanReadableFormat] [],
            Call Interactive [OInst StdOut [] [], OInst (Component ''Down'') [] [], ex_engine] [],
            GetComponent ''app.Plain'', Call (Component ''Plain'') [] [],
            GetComponent ''app.NoWatch'']\<rparr>"
    by (simp add: run_more)
  ultimately have "build_app ex_dr ex_missing_watcher ex_world =
       (Inl (Exception ''Couldn't find app.NoWatch.''),
        \<lparr>registry = [],
         calls = ex_applied @
           [Call StdOut [] [],
            GetComponent ''app.Down'', Call (Component ''Down'') [] [],
            Call Engine [ONone, OClass HumanReadableFormat] [],
            Call Interactive [OInst StdOut [] [], OInst (Component ''Down'') [] [], ex_engine] [],
            GetComponent ''app.Plain'', Call (Component ''Plain'') [] [],
            GetComponent ''app.NoWatch'']\<rparr>)"
    by (simp add: prod_eq_iff)
  with h1 h2 h3 r s t show ?thesis by simp
qed

text \<open>
  C10 as stated fails in two ways. With \<^verbatim>\<open>service.downloader\<close> absent the failure of a
  watcher lookup comes after three constructor calls, not four: no call of \<open>LocalFS\<close> is
  made. And with an unresolvable publisher as well, the failure raised is the
  publisher's, before any constructor has run.
\<close>

theorem watcher_failure_counterexample:
  "watcher_names ex_only_watcher = [''app.NoWatch'']
   \<and> get_component ex_dr (resolving_registry ex_dr ex_only_watcher ex_world) ''app.NoWatch'' = None
   \<and> build_app ex_dr ex_only_watcher ex_world =
       (Inl (Exception ''Couldn't find app.NoWatch.''),
        \<lparr>registry = [],
         calls = ex_applied @
           [Call StdOut [] [],
            Call Engine [ONone, OClass HumanReadableFormat] [],
            Call Interactive [OInst StdOut [] [], OClass LocalFS, ex_engine] [],
            GetComponent ''app.NoWatch'']\<rparr>)
   \<and> (\<forall>as kws. Call LocalFS as kws \<notin> set (calls (snd (build_app ex_dr ex_only_watcher ex_world))))
   \<and> watcher_names ex_missing_publisher = [''app.NoWatch'']
   \<and> build_app ex_dr ex_missing_publisher ex_world =
       (Inl (Exception ''Couldn't find app.NoPub.''),
        \<lparr>registry = [], calls = ex_applied @ [GetComponent ''app.NoPub'']\<rparr>)"
  by (simp add: run_more)

end
